theory Spec2Isabelle
  imports Complex_Main "HOL-Library.Word"
begin

unbundle bit_operations_syntax

section \<open>Data model of the MPU9250 driver (src/mpu9250.c, src/libraries/bb\_blue\_api.h)\<close>

text \<open>
  Conventions of the embedding.
  \<^item> In the sample and in the fusion a C \<open>float\<close> is a \<open>real\<close>: arithmetic is exact,
    rounding is not modelled. A \<open>NaN\<close> can only come out of \<open>atan2f\<close>, which returns an
    \<open>option\<close>.
  \<^item> In the calibration (the fitted ellipsoid, the scale factors, the text of the
    calibration file) a \<open>float\<close> or \<open>double\<close> is a \<open>cfloat\<close>: a sign and a magnitude, an
    infinity or a NaN; conversions to \<open>float\<close> and \<open>double\<close> round to the nearest value of
    binary32 and binary64, ties to even.
  \<^item> \<open>float v[3]\<close>, \<open>float q[4]\<close> and \<open>int16_t r[3]\<close> are functions from the index.
  \<^item> \<open>uint8_t\<close>, \<open>int16_t\<close>/\<open>uint16_t\<close> and \<open>long\<close> are 8, 16 and 32 bit words (the
    BeagleBone's ARM ABI has a 32 bit \<open>long\<close>); \<open>int\<close> values that cannot overflow in the
    modelled paths are \<open>int\<close>.
  \<^item> Every call into the bus transport, the GPIO layer, libc's sleep and the calibration
    files is an event appended to the field \<open>bus\<close> (hardware) or a change of \<open>files\<close>;
    what the outside world answers is read from an environment that sees the whole history.
  \<^item> \<open>printf\<close> appends the format string (without its trailing newline) to \<open>console\<close>.
\<close>

type_synonym byte = "8 word"
type_synonym farray = "nat \<Rightarrow> real"
type_synonym i16array = "nat \<Rightarrow> 16 word"

subsection \<open>Floats of the calibration\<close>

text \<open>A value of C's \<open>float\<close> or \<open>double\<close>: finite, with its sign bit (\<open>True\<close> is minus) and
  its magnitude, or an infinity or a NaN with its sign bit. Zero has a sign.\<close>

datatype cfloat = Finite bool real | Infinity bool | NaN bool

type_synonym cfarray = "nat \<Rightarrow> cfloat"

text \<open>The number that a finite value stands for.\<close>

definition cf_real :: "cfloat \<Rightarrow> real option" where
  "cf_real c = (case c of Finite neg m \<Rightarrow> Some (if neg then - m else m)
                | Infinity neg \<Rightarrow> None | NaN neg \<Rightarrow> None)"

text \<open>C's \<open>>\<close> and \<open><\<close> against a constant, and \<open>fabs\<close>. A NaN compares false.\<close>

definition cf_gt :: "cfloat \<Rightarrow> real \<Rightarrow> bool" where
  "cf_gt c r = (case c of Finite neg m \<Rightarrow> (if neg then - m else m) > r
                | Infinity neg \<Rightarrow> \<not> neg | NaN neg \<Rightarrow> False)"

definition cf_lt :: "cfloat \<Rightarrow> real \<Rightarrow> bool" where
  "cf_lt c r = (case c of Finite neg m \<Rightarrow> (if neg then - m else m) < r
                | Infinity neg \<Rightarrow> neg | NaN neg \<Rightarrow> False)"

definition cf_fabs :: "cfloat \<Rightarrow> cfloat" where
  "cf_fabs c = (case c of Finite neg m \<Rightarrow> Finite False m
                | Infinity neg \<Rightarrow> Infinity False | NaN neg \<Rightarrow> NaN False)"

text \<open>Rounding to the nearest integer, ties to even.\<close>

definition round_half_even :: "real \<Rightarrow> int" where
  "round_half_even y =
    (let f = \<lfloor>y\<rfloor> in
     if y - of_int f < 1 / 2 then f
     else if y - of_int f > 1 / 2 then f + 1
     else if even f then f else f + 1)"

text \<open>The binary exponent of a magnitude \<open>m\<close>, kept between \<open>emin\<close> (where the subnormal
  numbers live) and \<open>emax\<close>: the search goes up from \<open>emin\<close> as long as the next power of
  two is not above \<open>m\<close>.\<close>

primrec exp_search :: "nat \<Rightarrow> int \<Rightarrow> real \<Rightarrow> int" where
  "exp_search 0 e m = e"
| "exp_search (Suc n) e m = (if 2 powi (e + 1) \<le> m then exp_search n (e + 1) m else e)"

definition fp_exponent :: "int \<Rightarrow> int \<Rightarrow> real \<Rightarrow> int" where
  "fp_exponent emin emax m = exp_search (nat (emax - emin)) emin m"

text \<open>Conversion of a magnitude to a binary format of precision \<open>p\<close>: the nearest multiple
  of the unit \<open>2^(e - p + 1)\<close> of its binade, ties to even; a result of \<open>2^(emax + 1)\<close> or
  more overflows to an infinity. \<open>float\<close> is binary32, \<open>double\<close> is binary64.\<close>

definition fp_round_mag :: "nat \<Rightarrow> int \<Rightarrow> int \<Rightarrow> real \<Rightarrow> real" where
  "fp_round_mag p emin emax m =
    (let u = 2 powi (fp_exponent emin emax m - int p + 1)
     in real_of_int (round_half_even (m / u)) * u)"

definition fp_round :: "nat \<Rightarrow> int \<Rightarrow> int \<Rightarrow> bool \<Rightarrow> real \<Rightarrow> cfloat" where
  "fp_round p emin emax neg m =
    (let r = fp_round_mag p emin emax m
     in if r \<ge> 2 powi (emax + 1) then Infinity neg else Finite neg r)"

definition to_float :: "bool \<Rightarrow> real \<Rightarrow> cfloat" where
  "to_float = fp_round 24 (- 126) 127"

definition to_double :: "bool \<Rightarrow> real \<Rightarrow> cfloat" where
  "to_double = fp_round 53 (- 1022) 1023"

text \<open>The finite values that a \<open>float\<close> holds.\<close>

definition is_float :: "cfloat \<Rightarrow> bool" where
  "is_float c = (case c of Finite neg m \<Rightarrow> 0 \<le> m \<and> to_float neg m = Finite neg m
                 | Infinity neg \<Rightarrow> False | NaN neg \<Rightarrow> False)"

text \<open>The quotient \<open>a / x\<close> in \<open>double\<close> arithmetic, for a positive constant \<open>a\<close> and an
  operand that a \<open>double\<close> holds exactly (a \<open>float\<close> converts to \<open>double\<close> without rounding);
  and the conversion of a \<open>double\<close> to \<open>float\<close>.\<close>

definition double_div :: "real \<Rightarrow> cfloat \<Rightarrow> cfloat" where
  "double_div a x =
    (case x of
       Finite neg m \<Rightarrow> if m = 0 then Infinity neg else to_double neg (a / m)
     | Infinity neg \<Rightarrow> Finite neg 0
     | NaN neg \<Rightarrow> NaN neg)"

definition double_to_float :: "cfloat \<Rightarrow> cfloat" where
  "double_to_float d = (case d of Finite neg m \<Rightarrow> to_float neg m
                        | Infinity neg \<Rightarrow> Infinity neg | NaN neg \<Rightarrow> NaN neg)"

datatype accel_fsr_t = A_FSR_2G | A_FSR_4G | A_FSR_8G | A_FSR_16G
datatype gyro_fsr_t = G_FSR_250DPS | G_FSR_500DPS | G_FSR_1000DPS | G_FSR_2000DPS
datatype accel_dlpf_t = ACCEL_DLPF_OFF | ACCEL_DLPF_184 | ACCEL_DLPF_92 | ACCEL_DLPF_41
  | ACCEL_DLPF_20 | ACCEL_DLPF_10 | ACCEL_DLPF_5
datatype gyro_dlpf_t = GYRO_DLPF_OFF | GYRO_DLPF_184 | GYRO_DLPF_92 | GYRO_DLPF_41
  | GYRO_DLPF_20 | GYRO_DLPF_10 | GYRO_DLPF_5

text \<open>\<open>imu_orientation_t\<close> is a C enum with explicit values; the driver switches on it with a
  \<open>default\<close> branch, so the field is an \<open>int\<close> and the enumerators are constants.\<close>

definition ORIENTATION_Z_UP :: int where "ORIENTATION_Z_UP = 136"
definition ORIENTATION_Z_DOWN :: int where "ORIENTATION_Z_DOWN = 396"
definition ORIENTATION_X_UP :: int where "ORIENTATION_X_UP = 14"
definition ORIENTATION_X_DOWN :: int where "ORIENTATION_X_DOWN = 266"
definition ORIENTATION_Y_UP :: int where "ORIENTATION_Y_UP = 112"
definition ORIENTATION_Y_DOWN :: int where "ORIENTATION_Y_DOWN = 336"

record imu_config_t =
  accel_fsr :: accel_fsr_t
  gyro_fsr :: gyro_fsr_t
  gyro_dlpf :: gyro_dlpf_t
  accel_dlpf :: accel_dlpf_t
  enable_magnetometer :: int
  dmp_sample_rate :: int
  orientation :: int
  compass_mix_factor :: int
  dmp_interrupt_priority :: int
  show_warnings :: int

text \<open>\<open>imu_data_t\<close> with the field names mpu9250.c uses (\<open>dmp_TaitBryan\<close>,
  \<open>fused_TaitBryan\<close>).\<close>

record imu_data_t =
  accel :: farray
  gyro :: farray
  mag :: farray
  temp :: real
  raw_gyro :: i16array
  raw_accel :: i16array
  accel_to_ms2 :: real
  gyro_to_degs :: real
  dmp_quat :: farray
  dmp_TaitBryan :: farray
  fused_quat :: farray
  fused_TaitBryan :: farray
  compass_heading :: real

definition QUAT_W :: nat where "QUAT_W = 0"
definition QUAT_X :: nat where "QUAT_X = 1"
definition QUAT_Y :: nat where "QUAT_Y = 2"
definition QUAT_Z :: nat where "QUAT_Z = 3"

definition FIFO_LEN_NO_MAG :: int where "FIFO_LEN_NO_MAG = 28"
definition FIFO_LEN_MAG :: int where "FIFO_LEN_MAG = 35"

definition QUAT_ERROR_THRESH :: int where "QUAT_ERROR_THRESH = 2 ^ 24"
definition QUAT_MAG_SQ_NORMALIZED :: int where "QUAT_MAG_SQ_NORMALIZED = 2 ^ 28"
definition QUAT_MAG_SQ_MIN :: int where
  "QUAT_MAG_SQ_MIN = QUAT_MAG_SQ_NORMALIZED - QUAT_ERROR_THRESH"
definition QUAT_MAG_SQ_MAX :: int where
  "QUAT_MAG_SQ_MAX = QUAT_MAG_SQ_NORMALIZED + QUAT_ERROR_THRESH"

subsection \<open>Hardware events and the environment\<close>

text \<open>Register names are macros of a header that is not part of the sources; the driver only
  passes them on to the bus transport, so they are symbolic.\<close>

datatype reg = FIFO_COUNTH | FIFO_R_W | INT_ENABLE | FIFO_EN | USER_CTRL | SMPLRT_DIV
  | MPU6500_BANK_SEL | MPU6500_MEM_R_W | MPU6500_PRGM_START_H | XG_OFFSET_H
  | WHO_AM_I_MPU9250 | I2C_MST_CTRL | I2C_SLV0_ADDR | I2C_SLV0_REG | I2C_SLV0_CTRL

datatype callee = Read_mag_data | Load_gyro_offets | Mpu_set_sample_rate
  | Dmp_load_motion_driver_firmware | Dmp_set_fifo_rate | Set_gyro_fsr | Set_accel_fsr | Set_gyro_dlpf | Set_accel_dlpf
  | Initialize_magnetometer | Power_down_magnetometer | Dmp_set_orientation
  | Dmp_enable_feature | Dmp_set_interrupt_mode | Mpu_set_dmp_state | Power_off_imu

datatype hw_event =
    SetDeviceAddress
  | ClaimBus
  | ReleaseBus
  | GetInUseState
  | I2cInit
  | WriteByte reg byte
  | WriteBytes reg "byte list"
  | ReadByte reg
  | ReadWord reg
  | ReadBytes reg nat
  | Usleep nat
  | GpioExport
  | GpioSetDir
  | GpioSetEdge
  | GpioFdOpen
  | GpioFdClose
  | Poll
  | ReadGpioValue
  | ResetMpu9250
  | PthreadCreate
  | Invoke callee
  | UserCallback
  | GetState

datatype error = NotDmpMode | BadPacketLen | BusError | FifoOverflow | FifoMisaligned
  | FalseInterrupt | ShortRead | QuatOutOfRange | NullData | BankRange | Corrupted
  | RateRange | RateNotDivisor | DivisionByZero | GpioError | WrongIdentity | NoCalFile
  | FileError | InvalidOrientation | NanYaw | ZeroMixFactor | BusClaimed | TooFewSamples
  | FitFailed | CenterOutOfBounds | LengthOutOfBounds | CalleeFailed callee

datatype status = OK | ERR error

text \<open>The C return value: every failure is \<open>-1\<close>, but a firmware read-back mismatch is
  \<open>-2\<close>.\<close>

fun ret_code :: "status \<Rightarrow> int" where
  "ret_code OK = 0"
| "ret_code (ERR Corrupted) = - 2"
| "ret_code (ERR e) = - 1"

text \<open>Macros of the absent register header that the modelled functions compute with.\<close>

record mpu_defs =
  BIT_FIFO_RST :: byte
  BIT_DMP_RST :: byte
  BIT_DMP_EN :: byte
  BIT_FIFO_EN :: byte
  I2C_MST_EN :: byte
  BIT_DMP_INT_EN :: byte
  FIFO_SLV0_EN :: byte
  MAGNETOMETER_SATURATION :: byte
  MAG_RAW_TO_uT :: real
  TB_PITCH_X :: nat
  TB_ROLL_Y :: nat
  TB_YAW_Z :: nat
  PI :: real
  TWO_PI :: real
  YAW_MIX_FACTOR :: int
  DMP_MIN_RATE :: int
  DMP_SAMPLE_RATE :: int
  MPU6500_BANK_SIZE :: nat
  D_0_22 :: "16 word"
  CFG_6 :: "16 word"
  regs_end :: "byte list"
  dmp_firmware :: "byte list"
  dmp_start_addr :: "16 word"
  AK8963_XOUT_L :: byte
  CONFIG_DIRECTORY :: string
  GYRO_CAL_FILE :: string
  MAG_CAL_FILE :: string

text \<open>The vector and quaternion helpers and \<open>atan2f\<close> live in libraries that are not part of
  the sources; they are parameters. \<open>atan2f\<close> answers \<open>None\<close> for a NaN.\<close>

record mathlib =
  normalizeQuaternion :: "farray \<Rightarrow> farray"
  quaternionToTaitBryan :: "farray \<Rightarrow> farray"
  TaitBryanToQuaternion :: "farray \<Rightarrow> farray"
  tilt_compensate :: "farray \<Rightarrow> farray \<Rightarrow> farray"
  atan2f :: "real \<Rightarrow> real \<Rightarrow> real option"

text \<open>The driver's globals, the statics of \<open>read_dmp_fifo\<close> and \<open>data_fusion\<close>, the sample
  \<open>data_ptr\<close> points to, and the outside world's history.\<close>

record driver =
  config :: imu_config_t
  bypass_en :: int
  dmp_en :: int
  packet_len :: int
  interrupt_running :: int
  shutdown_interrupt_thread :: int
  last_read_successful :: int
  last_interrupt_timestamp_micros :: nat
  mag_factory_adjust :: farray
  mag_offsets :: farray
  mag_scales :: farray
  data :: imu_data_t
  rdf_first_run :: int
  lastDMPYaw :: real
  lastYaw :: real
  df_first_run :: int
  bus :: "hw_event list"
  console :: "string list"
  files :: "string \<Rightarrow> string option"
  dirs :: "string set"

text \<open>What the outside world answers. Each oracle sees the history up to and including the
  call it answers.\<close>

record env =
  write_fails :: "hw_event list \<Rightarrow> bool"
  read_byte_result :: "hw_event list \<Rightarrow> byte option"
  read_word_result :: "hw_event list \<Rightarrow> 16 word option"
  read_bytes_result :: "hw_event list \<Rightarrow> byte list option"
  call_fails :: "hw_event list \<Rightarrow> bool"
  callee_effect :: "callee \<Rightarrow> driver \<Rightarrow> driver"
  fopen_w_ok :: "string set \<Rightarrow> string \<Rightarrow> bool"
  fprintf_fails :: "string \<Rightarrow> bool"
  micros_since_epoch :: "hw_event list \<Rightarrow> nat"
  in_use :: "hw_event list \<Rightarrow> bool"
  exiting :: "hw_event list \<Rightarrow> bool"
  mag_sample :: "hw_event list \<Rightarrow> farray option"
  fitEllipsoid :: "real list list \<Rightarrow> (cfarray \<times> cfarray) option"
  stack_int :: "nat \<Rightarrow> int"
  stack_float :: "nat \<Rightarrow> cfloat"

definition say :: "string \<Rightarrow> driver \<Rightarrow> driver" where
  "say m s = s\<lparr>console := console s @ [m]\<rparr>"

definition emit :: "hw_event \<Rightarrow> driver \<Rightarrow> driver" where
  "emit e s = s\<lparr>bus := bus s @ [e]\<rparr>"

text \<open>Bus transport (external). A write answers \<open>True\<close> when it failed (a non-zero return);
  a read answers \<open>None\<close> when it failed (a negative return). \<open>i2c_read_bytes\<close> returns the
  number of bytes it read: the length of the answer.\<close>

definition i2c_write_byte :: "env \<Rightarrow> reg \<Rightarrow> byte \<Rightarrow> driver \<Rightarrow> bool \<times> driver" where
  "i2c_write_byte E r v s = (let s' = emit (WriteByte r v) s in (write_fails E (bus s'), s'))"

definition i2c_write_bytes :: "env \<Rightarrow> reg \<Rightarrow> byte list \<Rightarrow> driver \<Rightarrow> bool \<times> driver" where
  "i2c_write_bytes E r vs s = (let s' = emit (WriteBytes r vs) s in (write_fails E (bus s'), s'))"

definition i2c_read_byte :: "env \<Rightarrow> reg \<Rightarrow> driver \<Rightarrow> byte option \<times> driver" where
  "i2c_read_byte E r s = (let s' = emit (ReadByte r) s in (read_byte_result E (bus s'), s'))"

definition i2c_read_word :: "env \<Rightarrow> reg \<Rightarrow> driver \<Rightarrow> 16 word option \<times> driver" where
  "i2c_read_word E r s = (let s' = emit (ReadWord r) s in (read_word_result E (bus s'), s'))"

definition i2c_read_bytes :: "env \<Rightarrow> reg \<Rightarrow> nat \<Rightarrow> driver \<Rightarrow> byte list option \<times> driver" where
  "i2c_read_bytes E r n s = (let s' = emit (ReadBytes r n) s in (read_bytes_result E (bus s'), s'))"

definition usleep :: "nat \<Rightarrow> driver \<Rightarrow> driver" where
  "usleep n s = emit (Usleep n) s"

section \<open>FIFO reset (mpu\_reset\_fifo, lines 1048-1080)\<close>

definition mpu_reset_fifo :: "mpu_defs \<Rightarrow> env \<Rightarrow> driver \<Rightarrow> status \<times> driver" where
  "mpu_reset_fifo D E s0 =
    (let (f1, s1) = i2c_write_byte E INT_ENABLE 0 s0 in
     if f1 then (ERR BusError, s1) else
     let (f2, s2) = i2c_write_byte E FIFO_EN 0 s1 in
     if f2 then (ERR BusError, s2) else
     let (f3, s3) = i2c_write_byte E USER_CTRL (BIT_FIFO_RST D OR BIT_DMP_RST D) s2 in
     if f3 then (ERR BusError, s3) else
     let s4 = usleep 2500 s3;
         d4 = (BIT_DMP_EN D OR BIT_FIFO_EN D)
                OR (if enable_magnetometer (config s4) \<noteq> 0 then I2C_MST_EN D else 0);
         (f5, s5) = i2c_write_byte E USER_CTRL d4 s4 in
     if f5 then (ERR BusError, s5) else
     let s6 = (if dmp_en s5 \<noteq> 0
               then snd (i2c_write_byte E INT_ENABLE (BIT_DMP_INT_EN D) s5) else s5);
         d6 = (if enable_magnetometer (config s6) \<noteq> 0 then FIFO_SLV0_EN D else 0);
         (f7, s7) = i2c_write_byte E FIFO_EN d6 s6 in
     if f7 then (ERR BusError, s7) else (OK, s7))"

section \<open>Sensor fusion (data\_fusion, lines 1528-1657)\<close>

text \<open>The switch on the mounting orientation (lines 1553-1588). \<open>magQuat\<close> is a local array;
  only its four entries are ever read.\<close>

definition orient_mag :: "mpu_defs \<Rightarrow> int \<Rightarrow> farray \<Rightarrow> farray option" where
  "orient_mag D orient m =
    (let z = (\<lambda>_. 0)(QUAT_W := 0) in
     if orient = ORIENTATION_Z_UP then
       Some (z(QUAT_X := m (TB_PITCH_X D), QUAT_Y := m (TB_ROLL_Y D), QUAT_Z := m (TB_YAW_Z D)))
     else if orient = ORIENTATION_Z_DOWN then
       Some (z(QUAT_X := - m (TB_PITCH_X D), QUAT_Y := m (TB_ROLL_Y D), QUAT_Z := - m (TB_YAW_Z D)))
     else if orient = ORIENTATION_X_UP then
       Some (z(QUAT_X := m (TB_YAW_Z D), QUAT_Y := m (TB_ROLL_Y D), QUAT_Z := m (TB_PITCH_X D)))
     else if orient = ORIENTATION_X_DOWN then
       Some (z(QUAT_X := - m (TB_YAW_Z D), QUAT_Y := m (TB_ROLL_Y D), QUAT_Z := - m (TB_PITCH_X D)))
     else if orient = ORIENTATION_Y_UP then
       Some (z(QUAT_X := m (TB_PITCH_X D), QUAT_Y := - m (TB_YAW_Z D), QUAT_Z := m (TB_ROLL_Y D)))
     else if orient = ORIENTATION_Y_DOWN then
       Some (z(QUAT_X := m (TB_PITCH_X D), QUAT_Y := m (TB_YAW_Z D), QUAT_Z := - m (TB_ROLL_Y D)))
     else None)"

text \<open>Lines 1617-1619 and 1640-1643: one step back into 0..2PI.\<close>

definition bound_yaw :: "mpu_defs \<Rightarrow> real \<Rightarrow> real" where
  "bound_yaw D y = (if y > TWO_PI D then y - TWO_PI D else if y < 0 then y + TWO_PI D else y)"

text \<open>Lines 1624-1628: the difference between compass and gyro heading, kept in -PI..PI.\<close>

definition wrap_delta :: "mpu_defs \<Rightarrow> real \<Rightarrow> real" where
  "wrap_delta D d = (if d \<ge> PI D then d - TWO_PI D else if d < - PI D then d + TWO_PI D else d)"

text \<open>Lines 1636-1637: a fraction of the error is added to the gyro-predicted yaw.\<close>

definition blend_yaw :: "mpu_defs \<Rightarrow> int \<Rightarrow> real \<Rightarrow> real \<Rightarrow> real" where
  "blend_yaw D rate newYaw deltaMagYaw =
     newYaw + deltaMagYaw * 100 / (real_of_int (YAW_MIX_FACTOR D) * real_of_int rate)"

text \<open>Lines 1648-1649: the yaw handed to the user lies in -PI..PI.\<close>

definition slide_yaw :: "mpu_defs \<Rightarrow> real \<Rightarrow> real" where
  "slide_yaw D y = (if y > PI D then y - TWO_PI D else y)"

definition data_fusion :: "mpu_defs \<Rightarrow> mathlib \<Rightarrow> driver \<Rightarrow> status \<times> driver" where
  "data_fusion D M s0 =
    (let d0 = data s0;
         fusedEuler = (\<lambda>_. 0)(TB_PITCH_X D := dmp_TaitBryan d0 (TB_PITCH_X D),
                               TB_ROLL_Y D := dmp_TaitBryan d0 (TB_ROLL_Y D),
                               TB_YAW_Z D := 0);
         unfusedQuat = TaitBryanToQuaternion M fusedEuler;
         deltaDMPYaw = lastDMPYaw s0 - dmp_TaitBryan d0 (TB_YAW_Z D);
         s1 = s0\<lparr>lastDMPYaw := dmp_TaitBryan d0 (TB_YAW_Z D)\<rparr>
     in case orient_mag D (orientation (config s1)) (mag d0) of
          None \<Rightarrow> (ERR InvalidOrientation, say ''ERROR: invalid orientation'' s1)
        | Some magQuat0 \<Rightarrow>
           (let magQuat = tilt_compensate M magQuat0 unfusedQuat in
            case atan2f M (magQuat QUAT_Y) (magQuat QUAT_X) of
              None \<Rightarrow> (ERR NanYaw, say ''newMagYaw NAN'' s1)
            | Some a \<Rightarrow>
               (let s2 = s1\<lparr>data := (data s1)\<lparr>compass_heading := - a\<rparr>\<rparr>;
                    newMagYaw = (if - a < 0 then TWO_PI D + - a else - a);
                    s3 = (if df_first_run s2 \<noteq> 0
                          then s2\<lparr>lastYaw := newMagYaw, df_first_run := 0\<rparr> else s2);
                    gyroYaw = bound_yaw D (lastYaw s3 + deltaDMPYaw);
                    deltaMagYaw = wrap_delta D (newMagYaw - gyroYaw)
                in if YAW_MIX_FACTOR D = 0
                   then (ERR ZeroMixFactor, say ''ERROR: YAW_MIX_FACTOR must be >0'' s3)
                   else
                    (let newYaw = bound_yaw D
                           (blend_yaw D (dmp_sample_rate (config s3)) gyroYaw deltaMagYaw);
                         s4 = s3\<lparr>lastYaw := newYaw\<rparr>;
                         d4 = data s4;
                         ft = (fused_TaitBryan d4)
                                (TB_YAW_Z D := slide_yaw D newYaw,
                                 TB_PITCH_X D := dmp_TaitBryan d4 (TB_PITCH_X D),
                                 TB_ROLL_Y D := dmp_TaitBryan d4 (TB_ROLL_Y D))
                     in (OK, s4\<lparr>data := d4\<lparr>fused_TaitBryan := ft,
                                fused_quat := TaitBryanToQuaternion M ft\<rparr>\<rparr>)))))"

section \<open>FIFO decoder (read\_dmp\_fifo, lines 1285-1515)\<close>

definition warn :: "string \<Rightarrow> driver \<Rightarrow> driver" where
  "warn m s = (if show_warnings (config s) \<noteq> 0 then say m s else s)"

text \<open>Lines 1311-1355: the FIFO byte count, read once or twice. The result is the count the
  decoder goes on with.\<close>

definition fifo_count_check :: "mpu_defs \<Rightarrow> env \<Rightarrow> driver \<Rightarrow> (error + int) \<times> driver" where
  "fifo_count_check D E s0 =
    (let (r1, s1) = i2c_read_word E FIFO_COUNTH s0 in
     case r1 of
       None \<Rightarrow> (Inl BusError, warn ''fifo_count i2c error: %s'' s1)
     | Some w1 \<Rightarrow>
        (let fifo_count = uint w1 in
         if fifo_count > 2 * packet_len s1 then
           (Inl FifoOverflow,
            snd (mpu_reset_fifo D E
                  (warn ''resetting fifo'' (warn ''mpu9250 wrong fifo count: %d'' s1))))
         else if fifo_count \<noteq> packet_len s1 \<and> fifo_count < 2 * packet_len s1 then
           (let (r2, s3) = i2c_read_word E FIFO_COUNTH (usleep 2500 s1) in
            case r2 of
              None \<Rightarrow> (Inl BusError, warn ''fifo_count i2c error: %s'' s3)
            | Some w2 \<Rightarrow>
               (let fifo_count2 = uint w2 in
                if fifo_count2 \<noteq> packet_len s3 \<and> fifo_count2 \<noteq> 2 * packet_len s3 then
                  (Inl FifoMisaligned,
                   if show_warnings (config s3) \<noteq> 0 \<and> rdf_first_run s3 \<noteq> 1
                   then snd (mpu_reset_fifo D E
                               (say ''%d bytes available, resetting FIFO: '' s3))
                   else s3)
                else (Inr fifo_count2, s3)))
         else (Inr fifo_count, s1)))"

text \<open>Lines 1357-1377: the offset of the packet to decode.\<close>

definition select_offset :: "driver \<Rightarrow> int \<Rightarrow> (error + int) \<times> driver" where
  "select_offset s fifo_count =
    (if fifo_count = 2 * packet_len s then
       (Inr (packet_len s), warn ''warning: mpu9250 fifo contains two packets'' s)
     else if fifo_count = FIFO_LEN_NO_MAG \<or> packet_len s = FIFO_LEN_MAG then (Inr 0, s)
     else (Inl FalseInterrupt, warn ''mpu9250 false interrupt, %d bytes available'' s))"

text \<open>Lines 1380-1392: the FIFO is read, a second time when the first read failed.\<close>

definition read_fifo_buffer :: "env \<Rightarrow> int \<Rightarrow> driver \<Rightarrow> (error + byte list) \<times> driver" where
  "read_fifo_buffer E fifo_count s0 =
    (let (r1, s1) = i2c_read_bytes E FIFO_R_W (nat fifo_count) s0;
         (r2, s2) = (case r1 of None \<Rightarrow> i2c_read_bytes E FIFO_R_W (nat fifo_count) s1
                     | Some b \<Rightarrow> (r1, s1))
     in case r2 of
          None \<Rightarrow> (Inl ShortRead, warn ''read %d bytes, expected %d''
                       (warn ''ERROR: failed to read fifo buffer register'' s2))
        | Some raw \<Rightarrow>
            if int (length raw) \<noteq> fifo_count
            then (Inl ShortRead, warn ''read %d bytes, expected %d''
                       (warn ''ERROR: failed to read fifo buffer register'' s2))
            else (Inr raw, s2))"

definition word16 :: "byte \<Rightarrow> byte \<Rightarrow> 16 word" where
  "word16 hi lo = push_bit 8 (ucast hi) OR ucast lo"

definition be32 :: "byte \<Rightarrow> byte \<Rightarrow> byte \<Rightarrow> byte \<Rightarrow> 32 word" where
  "be32 b0 b1 b2 b3 =
     push_bit 24 (ucast b0) OR push_bit 16 (ucast b1) OR push_bit 8 (ucast b2) OR ucast b3"

text \<open>Lines 1394-1436: the magnetometer block at \<open>raw[i..i+6]\<close>. The result says whether new
  magnetometer data was stored.\<close>

definition parse_mag :: "mpu_defs \<Rightarrow> byte list \<Rightarrow> nat \<Rightarrow> driver \<Rightarrow> bool \<times> driver" where
  "parse_mag D raw i s =
    (if raw ! (i + 6) AND MAGNETOMETER_SATURATION D \<noteq> 0
     then (False, say ''WARNING: magnetometer saturated'' s)
     else
      (let mag_adc0 = word16 (raw ! (i + 1)) (raw ! (i + 0));
           mag_adc1 = word16 (raw ! (i + 3)) (raw ! (i + 2));
           mag_adc2 = word16 (raw ! (i + 5)) (raw ! (i + 4))
       in if mag_adc0 \<noteq> 0 \<or> mag_adc1 \<noteq> 0 \<or> mag_adc2 \<noteq> 0 then
            (let f0 = real_of_int (sint mag_adc1) * mag_factory_adjust s 1 * MAG_RAW_TO_uT D;
                 f1 = real_of_int (sint mag_adc0) * mag_factory_adjust s 0 * MAG_RAW_TO_uT D;
                 f2 = real_of_int (- sint mag_adc2) * mag_factory_adjust s 2 * MAG_RAW_TO_uT D;
                 sc0 = mag_scales s;
                 sc1 = (if sc0 0 = 0 then sc0(0 := 1) else sc0);
                 sc2 = (if sc1 1 = 0 then sc1(1 := 1) else sc1);
                 sc3 = (if sc2 2 = 0 then sc2(2 := 1) else sc2);
                 s1 = s\<lparr>mag_scales := sc3\<rparr>;
                 m = (mag (data s1))
                       (0 := (f0 - mag_offsets s1 0) * mag_scales s1 0,
                        1 := (f1 - mag_offsets s1 1) * mag_scales s1 1,
                        2 := (f2 - mag_offsets s1 2) * mag_scales s1 2)
             in (True, s1\<lparr>data := (data s1)\<lparr>mag := m\<rparr>\<rparr>))
          else (False, s)))"

text \<open>Lines 1438-1461: the quaternion at \<open>raw[i..i+15]\<close> and its squared magnitude, computed
  from the upper 16 bits of each component in 32 bit arithmetic.\<close>

definition parse_quat :: "byte list \<Rightarrow> nat \<Rightarrow> nat \<Rightarrow> 32 word" where
  "parse_quat raw i k =
     be32 (raw ! (i + 4 * k + 0)) (raw ! (i + 4 * k + 1))
          (raw ! (i + 4 * k + 2)) (raw ! (i + 4 * k + 3))"

definition quat_mag_sq :: "byte list \<Rightarrow> nat \<Rightarrow> 32 word" where
  "quat_mag_sq raw i =
    (let q0 = signed_drop_bit 16 (parse_quat raw i 0);
         q1 = signed_drop_bit 16 (parse_quat raw i 1);
         q2 = signed_drop_bit 16 (parse_quat raw i 2);
         q3 = signed_drop_bit 16 (parse_quat raw i 3)
     in q0 * q0 + q1 * q1 + q2 * q2 + q3 * q3)"

definition quat_rejected :: "byte list \<Rightarrow> nat \<Rightarrow> bool" where
  "quat_rejected raw i =
     (sint (quat_mag_sq raw i) < QUAT_MAG_SQ_MIN \<or> sint (quat_mag_sq raw i) > QUAT_MAG_SQ_MAX)"

text \<open>Lines 1468-1500: quaternion, Euler angles, accelerometer and gyroscope are stored.\<close>

definition store_sample :: "mathlib \<Rightarrow> byte list \<Rightarrow> nat \<Rightarrow> imu_data_t \<Rightarrow> imu_data_t" where
  "store_sample M raw i d0 =
    (let q = (dmp_quat d0)
               (QUAT_W := real_of_int (sint (parse_quat raw i QUAT_W)),
                QUAT_X := real_of_int (sint (parse_quat raw i QUAT_X)),
                QUAT_Y := real_of_int (sint (parse_quat raw i QUAT_Y)),
                QUAT_Z := real_of_int (sint (parse_quat raw i QUAT_Z)));
         d1 = d0\<lparr>dmp_quat := normalizeQuaternion M q\<rparr>;
         d2 = d1\<lparr>dmp_TaitBryan := quaternionToTaitBryan M (dmp_quat d1)\<rparr>;
         ia = i + 16;
         d3 = d2\<lparr>raw_accel := (raw_accel d2)
                  (0 := word16 (raw ! (ia + 0)) (raw ! (ia + 1)),
                   1 := word16 (raw ! (ia + 2)) (raw ! (ia + 3)),
                   2 := word16 (raw ! (ia + 4)) (raw ! (ia + 5)))\<rparr>;
         d4 = d3\<lparr>accel := (accel d3)
                  (0 := real_of_int (sint (raw_accel d3 0)) * accel_to_ms2 d3,
                   1 := real_of_int (sint (raw_accel d3 1)) * accel_to_ms2 d3,
                   2 := real_of_int (sint (raw_accel d3 2)) * accel_to_ms2 d3)\<rparr>;
         ig = ia + 6;
         d5 = d4\<lparr>raw_gyro := (raw_gyro d4)
                  (0 := word16 (raw ! (0 + ig)) (raw ! (1 + ig)),
                   1 := word16 (raw ! (2 + ig)) (raw ! (3 + ig)),
                   2 := word16 (raw ! (4 + ig)) (raw ! (5 + ig)))\<rparr>
     in d5\<lparr>gyro := (gyro d5)
                  (0 := real_of_int (sint (raw_gyro d5 0)) * gyro_to_degs d5,
                   1 := real_of_int (sint (raw_gyro d5 1)) * gyro_to_degs d5,
                   2 := real_of_int (sint (raw_gyro d5 2)) * gyro_to_degs d5)\<rparr>)"

text \<open>Lines 1394-1514: the decode of the packet that starts at \<open>raw[i0]\<close>.\<close>

definition decode_packet ::
  "mpu_defs \<Rightarrow> mathlib \<Rightarrow> byte list \<Rightarrow> nat \<Rightarrow> driver \<Rightarrow> status \<times> driver" where
  "decode_packet D M raw i0 s0 =
    (let (is_new_mag_data, i1, s1) =
           (if packet_len s0 = FIFO_LEN_MAG
            then (let (nm, s) = parse_mag D raw i0 s0 in (nm, i0 + 7, s))
            else (False, i0, s0))
     in if quat_rejected raw i1
        then (ERR QuatOutOfRange,
              warn ''ERROR:Quaternion is outside of the acceptable threshold'' s1)
        else
         (let s2 = s1\<lparr>data := store_sample M raw i1 (data s1)\<rparr>;
              s3 = (if is_new_mag_data then snd (data_fusion D M s2) else s2)
          in (OK, s3\<lparr>rdf_first_run := 0\<rparr>)))"

definition read_dmp_fifo :: "mpu_defs \<Rightarrow> mathlib \<Rightarrow> env \<Rightarrow> driver \<Rightarrow> status \<times> driver" where
  "read_dmp_fifo D M E s0 =
    (if dmp_en s0 = 0 then (ERR NotDmpMode, say ''only use mpu_read_fifo in dmp mode'' s0)
     else if packet_len s0 \<noteq> FIFO_LEN_NO_MAG \<and> packet_len s0 \<noteq> FIFO_LEN_MAG
     then (ERR BadPacketLen, say ''ERROR: packet_len is set incorrectly for read_dmp_fifo'' s0)
     else
      (let (c, s2) = fifo_count_check D E (emit SetDeviceAddress s0) in
       case c of
         Inl e \<Rightarrow> (ERR e, s2)
       | Inr fifo_count \<Rightarrow>
          (let (ofs, s3) = select_offset s2 fifo_count in
           case ofs of
             Inl e \<Rightarrow> (ERR e, s3)
           | Inr i \<Rightarrow>
              (let (b, s4) = read_fifo_buffer E fifo_count s3 in
               case b of
                 Inl e \<Rightarrow> (ERR e, s4)
               | Inr raw \<Rightarrow> decode_packet D M raw (nat i) s4))))"

text \<open>The compass yaw and the gyro-propagated yaw that \<open>data_fusion\<close> computes on its way:
  the values of the locals \<open>newMagYaw\<close> after line 1606 and \<open>newYaw\<close> after line 1619.\<close>

definition new_mag_yaw :: "mpu_defs \<Rightarrow> mathlib \<Rightarrow> driver \<Rightarrow> real option" where
  "new_mag_yaw D M s =
    (let d0 = data s;
         fusedEuler = (\<lambda>_. 0)(TB_PITCH_X D := dmp_TaitBryan d0 (TB_PITCH_X D),
                               TB_ROLL_Y D := dmp_TaitBryan d0 (TB_ROLL_Y D),
                               TB_YAW_Z D := 0);
         unfusedQuat = TaitBryanToQuaternion M fusedEuler
     in case orient_mag D (orientation (config s)) (mag d0) of
          None \<Rightarrow> None
        | Some magQuat0 \<Rightarrow>
           (let magQuat = tilt_compensate M magQuat0 unfusedQuat in
            case atan2f M (magQuat QUAT_Y) (magQuat QUAT_X) of
              None \<Rightarrow> None
            | Some a \<Rightarrow> Some (if - a < 0 then TWO_PI D + - a else - a)))"

definition gyro_yaw :: "mpu_defs \<Rightarrow> mathlib \<Rightarrow> driver \<Rightarrow> real option" where
  "gyro_yaw D M s =
    (case new_mag_yaw D M s of
       None \<Rightarrow> None
     | Some m \<Rightarrow>
         Some (bound_yaw D ((if df_first_run s \<noteq> 0 then m else lastYaw s)
                              + (lastDMPYaw s - dmp_TaitBryan (data s) (TB_YAW_Z D)))))"

section \<open>Firmware loader (mpu\_write\_mem, mpu\_read\_mem, dmp\_load\_motion\_driver\_firmware,
  lines 625-720)\<close>

text \<open>\<open>data\<close> is a pointer: \<open>None\<close> is the null pointer, \<open>Some bytes\<close> the memory it points
  to, of which the first \<open>length\<close> bytes are written.\<close>

definition mpu_write_mem ::
  "mpu_defs \<Rightarrow> env \<Rightarrow> 16 word \<Rightarrow> 16 word \<Rightarrow> byte list option \<Rightarrow> driver \<Rightarrow> status \<times> driver" where
  "mpu_write_mem D E mem_addr len dat s =
    (case dat of
       None \<Rightarrow> (ERR NullData, s)
     | Some bytes \<Rightarrow>
        (let tmp0 = (ucast (drop_bit 8 mem_addr) :: byte);
             tmp1 = (ucast (mem_addr AND 0xFF) :: byte)
         in if unat tmp1 + unat len > MPU6500_BANK_SIZE D
            then (ERR BankRange, say ''mpu_write_mem exceeds bank size'' s)
            else
             (let (f1, s1) = i2c_write_bytes E MPU6500_BANK_SEL [tmp0, tmp1] s in
              if f1 then (ERR BusError, s1) else
              (let (f2, s2) = i2c_write_bytes E MPU6500_MEM_R_W (take (unat len) bytes) s1 in
               if f2 then (ERR BusError, s2) else (OK, s2)))))"

text \<open>The buffer of \<open>mpu_read_mem\<close> is always a local array of its caller; the result carries
  the bytes read into it.\<close>

definition mpu_read_mem ::
  "mpu_defs \<Rightarrow> env \<Rightarrow> 16 word \<Rightarrow> 16 word \<Rightarrow> driver \<Rightarrow> (error + byte list) \<times> driver" where
  "mpu_read_mem D E mem_addr len s =
    (let tmp0 = (ucast (drop_bit 8 mem_addr) :: byte);
         tmp1 = (ucast (mem_addr AND 0xFF) :: byte)
     in if unat tmp1 + unat len > MPU6500_BANK_SIZE D
        then (Inl BankRange, say ''mpu_read_mem exceeds bank size'' s)
        else
         (let (f1, s1) = i2c_write_bytes E MPU6500_BANK_SEL [tmp0, tmp1] s in
          if f1 then (Inl BusError, s1) else
          (let (r, s2) = i2c_read_bytes E MPU6500_MEM_R_W (unat len) s1 in
           case r of
             None \<Rightarrow> (Inl BusError, s2)
           | Some bytes \<Rightarrow>
               if length bytes \<noteq> unat len then (Inl BusError, s2) else (Inr bytes, s2))))"

text \<open>Modelled from the spec: the macro \<open>DMP_LOAD_CHUNK\<close> is declared in a header that is not
  part of the sources. The spec speaks of fixed-size chunks no larger than a bank, and the
  loader's own comment of 16 bytes at a time.\<close>

definition DMP_LOAD_CHUNK :: nat where "DMP_LOAD_CHUNK = 16"

text \<open>\<open>DMP_CODE_SIZE\<close> is the size of the firmware image \<open>dmp_firmware\<close>.\<close>

definition DMP_CODE_SIZE :: "mpu_defs \<Rightarrow> nat" where
  "DMP_CODE_SIZE D = length (dmp_firmware D)"

text \<open>The loop of lines 696-710. The counter \<open>ii\<close> is an \<open>unsigned short\<close> in the source; the
  model's \<open>nat\<close> agrees with it for images below 65536 bytes.\<close>

function dmp_load_loop :: "mpu_defs \<Rightarrow> env \<Rightarrow> nat \<Rightarrow> driver \<Rightarrow> status \<times> driver" where
  "dmp_load_loop D E ii s =
    (if ii < DMP_CODE_SIZE D then
       (let this_write = min DMP_LOAD_CHUNK (DMP_CODE_SIZE D - ii);
            ws = mpu_write_mem D E (word_of_nat ii) (word_of_nat this_write)
                   (Some (drop ii (dmp_firmware D))) s
        in if fst ws \<noteq> OK then (fst ws, say ''dmp firmware write failed'' (snd ws))
           else
            (let rs = mpu_read_mem D E (word_of_nat ii) (word_of_nat this_write) (snd ws) in
             case fst rs of
               Inl e \<Rightarrow> (ERR e, say ''dmp firmware read failed'' (snd rs))
             | Inr cur \<Rightarrow>
                 if take this_write (drop ii (dmp_firmware D)) \<noteq> take this_write cur
                 then (ERR Corrupted, say ''dmp firmware write corrupted'' (snd rs))
                 else dmp_load_loop D E (ii + this_write) (snd rs)))
     else (OK, s))"
  by pat_completeness auto
termination
  by (relation "measure (\<lambda>(D, E, ii, s). DMP_CODE_SIZE D - ii)")
     (auto simp add: DMP_LOAD_CHUNK_def)

definition dmp_load_motion_driver_firmware :: "mpu_defs \<Rightarrow> env \<Rightarrow> driver \<Rightarrow> status \<times> driver" where
  "dmp_load_motion_driver_firmware D E s =
    (let (r, s1) = dmp_load_loop D E 0 (emit SetDeviceAddress s) in
     if r \<noteq> OK then (r, s1)
     else
      (let tmp = [(ucast (drop_bit 8 (dmp_start_addr D)) :: byte),
                  (ucast (dmp_start_addr D AND 0xFF) :: byte)];
           (f, s2) = i2c_write_bytes E MPU6500_PRGM_START_H tmp s1
       in if f then (ERR BusError, s2) else (OK, s2)))"

section \<open>Sample rate (mpu\_set\_sample\_rate, lines 1143-1158; dmp\_set\_fifo\_rate, lines 779-808)\<close>

text \<open>The rate is between 4 and 1000 where the division is reached, so C's truncating
  division is \<open>div\<close>. The divider is a \<open>uint8_t\<close>.\<close>

definition mpu_set_sample_rate :: "env \<Rightarrow> int \<Rightarrow> driver \<Rightarrow> status \<times> driver" where
  "mpu_set_sample_rate E rate s =
    (if rate > 1000 \<or> rate < 4
     then (ERR RateRange, say ''ERROR: sample rate must be between 4 & 1000'' s)
     else
      (let div' = (word_of_int (1000 div rate - 1) :: byte);
           (f, s1) = i2c_write_byte E SMPLRT_DIV div' s
       in if f then (ERR BusError, say ''I2C bus write error'' s1) else (OK, s1)))"

text \<open>\<open>rate\<close> is an \<open>unsigned short\<close>. A rate of 0 makes the C division trap; the model says
  so. The 16 bit divider is cut to the byte the bus write takes.\<close>

definition dmp_set_fifo_rate :: "mpu_defs \<Rightarrow> env \<Rightarrow> 16 word \<Rightarrow> driver \<Rightarrow> status \<times> driver" where
  "dmp_set_fifo_rate D E rate s =
    (if uint rate > DMP_SAMPLE_RATE D then (ERR RateRange, s)
     else if rate = 0 then (ERR DivisionByZero, s)
     else
      (let div' = (word_of_int (1000 div uint rate - 1) :: 16 word);
           (f, s1) = i2c_write_byte E SMPLRT_DIV (ucast div') s
       in if f then (ERR BusError, say ''I2C bus write error'' s1)
          else
           (let div0 = (0 :: 16 word);
                tmp = [(ucast (drop_bit 8 div0 AND 0xFF) :: byte), (ucast (div0 AND 0xFF) :: byte)];
                (r2, s2) = mpu_write_mem D E (D_0_22 D) 2 (Some tmp) s1
            in if r2 \<noteq> OK then (r2, s2)
               else mpu_write_mem D E (CFG_6 D) 12 (Some (regs_end D)) s2)))"

section \<open>Calibration store (lines 1665-1743 and 1984-2061)\<close>

subsection \<open>libc's conversions \<open>%d\<close> and \<open>%f\<close>\<close>

text \<open>\<open>printf\<close> and \<open>scanf\<close> belong to libc. The model prints and reads decimal text:
  \<open>%d\<close> as an optional minus sign and digits; \<open>%f\<close> with the sign, the digits of the
  magnitude and six digits after the point, rounded to nearest, ties to even (\<open>inf\<close> and
  \<open>nan\<close> for the values that are not finite). The scanner skips leading white space, reads a
  sign, digits and, for \<open>%f\<close>, a point and more digits, and converts the decimal number to
  the nearest \<open>float\<close> (exponents, hexadecimal floats, \<open>inf\<close> and \<open>nan\<close>, which libc reads as
  well, are not modelled: the model reports no conversion there).\<close>

fun show_nat :: "nat \<Rightarrow> string" where
  "show_nat n = (if n < 10 then [char_of (48 + n)]
                 else show_nat (n div 10) @ [char_of (48 + n mod 10)])"

declare show_nat.simps [simp del]

definition printf_d :: "int \<Rightarrow> string" where
  "printf_d i = (if i < 0 then CHR ''-'' # show_nat (nat (- i)) else show_nat (nat i))"

definition is_digit :: "char \<Rightarrow> bool" where
  "is_digit c = (48 \<le> (of_char c :: nat) \<and> (of_char c :: nat) \<le> 57)"

definition is_space :: "char \<Rightarrow> bool" where
  "is_space c = ((of_char c :: nat) = 32 \<or> (9 \<le> (of_char c :: nat) \<and> (of_char c :: nat) \<le> 13))"

definition digits_val :: "string \<Rightarrow> nat" where
  "digits_val ds = foldl (\<lambda>a c. 10 * a + ((of_char c :: nat) - 48)) 0 ds"

definition scan_sign :: "string \<Rightarrow> bool \<times> string" where
  "scan_sign s =
    (case s of
       [] \<Rightarrow> (False, s)
     | c # r \<Rightarrow> if c = CHR ''-'' then (True, r) else if c = CHR ''+'' then (False, r)
               else (False, s))"

definition scanf_d :: "string \<Rightarrow> (int \<times> string) option" where
  "scanf_d s =
    (let (neg, s1) = scan_sign (dropWhile is_space s);
         ds = takeWhile is_digit s1
     in if ds = [] then None
        else Some ((if neg then - int (digits_val ds) else int (digits_val ds)),
                   dropWhile is_digit s1))"

definition pad6 :: "nat \<Rightarrow> string" where
  "pad6 m = replicate (6 - length (show_nat m)) (CHR ''0'') @ show_nat m"

definition printf_f :: "cfloat \<Rightarrow> string" where
  "printf_f c =
    (case c of
       Finite neg m \<Rightarrow>
        (let n = nat (round_half_even (m * 1000000)) in
         (if neg then ''-'' else []) @ show_nat (n div 1000000) @ ''.''
           @ pad6 (n mod 1000000))
     | Infinity neg \<Rightarrow> (if neg then ''-'' else []) @ ''inf''
     | NaN neg \<Rightarrow> (if neg then ''-'' else []) @ ''nan'')"

definition scanf_f :: "string \<Rightarrow> (cfloat \<times> string) option" where
  "scanf_f s =
    (let (neg, s1) = scan_sign (dropWhile is_space s);
         ip = takeWhile is_digit s1;
         s2 = dropWhile is_digit s1;
         (fp, s3) = (case s2 of
                       [] \<Rightarrow> ([], s2)
                     | c # r \<Rightarrow> if c = CHR ''.''
                               then (takeWhile is_digit r, dropWhile is_digit r)
                               else ([], s2))
     in if ip = [] \<and> fp = [] then None
        else Some (to_float neg (real (digits_val ip) + real (digits_val fp) / 10 ^ length fp),
                   s3))"

text \<open>\<open>fscanf\<close> with a format of \<open>n\<close> conversions separated by white space: the values
  converted, in order, up to the first conversion that fails.\<close>

fun fscanf_ints :: "nat \<Rightarrow> string \<Rightarrow> int list" where
  "fscanf_ints 0 s = []"
| "fscanf_ints (Suc n) s =
     (case scanf_d s of None \<Rightarrow> [] | Some (x, r) \<Rightarrow> x # fscanf_ints n r)"

fun fscanf_floats :: "nat \<Rightarrow> string \<Rightarrow> cfloat list" where
  "fscanf_floats 0 s = []"
| "fscanf_floats (Suc n) s =
     (case scanf_f s of None \<Rightarrow> [] | Some (x, r) \<Rightarrow> x # fscanf_floats n r)"

text \<open>A variable that \<open>fscanf\<close> did not assign keeps whatever the stack held.\<close>

definition scanned_int :: "env \<Rightarrow> int list \<Rightarrow> nat \<Rightarrow> int" where
  "scanned_int E vs k = (if k < length vs then vs ! k else stack_int E k)"

definition scanned_float :: "env \<Rightarrow> cfloat list \<Rightarrow> nat \<Rightarrow> cfloat" where
  "scanned_float E vs k = (if k < length vs then vs ! k else stack_float E k)"

subsection \<open>The files\<close>

text \<open>Lines 1669-1683 and 1989-2003, the same in both writers: the file is opened for
  writing, after a \<open>mkdir\<close> of the configuration directory when that fails at first. Opening
  for writing empties the file. The result says whether the file is open.\<close>

definition open_cal_file_w :: "mpu_defs \<Rightarrow> env \<Rightarrow> string \<Rightarrow> driver \<Rightarrow> bool \<times> driver" where
  "open_cal_file_w D E file_path s =
    (if fopen_w_ok E (dirs s) file_path
     then (True, s\<lparr>files := (files s)(file_path \<mapsto> [])\<rparr>)
     else
      (let s1 = s\<lparr>dirs := insert (CONFIG_DIRECTORY D) (dirs s)\<rparr> in
       if fopen_w_ok E (dirs s1) file_path
       then (True, s1\<lparr>files := (files s1)(file_path \<mapsto> [])\<rparr>)
       else (False, say [] (say (CONFIG_DIRECTORY D)
                              (say ''could not open config directory'' s1)))))"

definition gyro_cal_text :: "i16array \<Rightarrow> string" where
  "gyro_cal_text offsets =
     printf_d (sint (offsets 0)) @ [CHR 0x0A] @ printf_d (sint (offsets 1)) @ [CHR 0x0A]
       @ printf_d (sint (offsets 2)) @ [CHR 0x0A]"

definition write_gyro_offets_to_disk ::
  "mpu_defs \<Rightarrow> env \<Rightarrow> i16array \<Rightarrow> driver \<Rightarrow> status \<times> driver" where
  "write_gyro_offets_to_disk D E offsets s =
    (let file_path = CONFIG_DIRECTORY D @ GYRO_CAL_FILE D;
         (opened, s1) = open_cal_file_w D E file_path s
     in if \<not> opened then (ERR FileError, s1)
        else if fprintf_fails E file_path
        then (ERR FileError, say ''Failed to write gyro offsets to file'' s1)
        else (OK, s1\<lparr>files := (files s1)(file_path \<mapsto> gyro_cal_text offsets)\<rparr>))"

text \<open>C's division truncates towards zero.\<close>

definition c_div :: "int \<Rightarrow> int \<Rightarrow> int" where
  "c_div a b = sgn a * sgn b * (\<bar>a\<bar> div \<bar>b\<bar>)"

text \<open>Lines 1729-1734: the six bias bytes for the gyro offsets \<open>x, y, z\<close>.\<close>

definition gyro_bias_bytes :: "int \<Rightarrow> int \<Rightarrow> int \<Rightarrow> byte list" where
  "gyro_bias_bytes x y z =
     [word_of_int (drop_bit 8 (c_div (- x) 4) AND 0xFF), word_of_int (c_div (- x) 4 AND 0xFF),
      word_of_int (drop_bit 8 (c_div (- y) 4) AND 0xFF), word_of_int (c_div (- y) 4 AND 0xFF),
      word_of_int (drop_bit 8 (c_div (- z) 4) AND 0xFF), word_of_int (c_div (- z) 4 AND 0xFF)]"

definition load_gyro_offets :: "mpu_defs \<Rightarrow> env \<Rightarrow> driver \<Rightarrow> status \<times> driver" where
  "load_gyro_offets D E s =
    (let file_path = CONFIG_DIRECTORY D @ GYRO_CAL_FILE D in
     case files s file_path of
       None \<Rightarrow> (ERR NoCalFile, say ''Please run calibrate_gyro''
                                 (say ''WARNING: no gyro calibration data found'' s))
     | Some cal \<Rightarrow>
        (let vs = fscanf_ints 3 cal;
             x = scanned_int E vs 0; y = scanned_int E vs 1; z = scanned_int E vs 2;
             (f, s1) = i2c_write_bytes E XG_OFFSET_H (gyro_bias_bytes x y z) s
         in if f then (ERR BusError,
                       say ''ERROR: failed to load gyro offsets into IMU register'' s1)
            else (OK, s1)))"

definition mag_cal_text :: "cfarray \<Rightarrow> cfarray \<Rightarrow> string" where
  "mag_cal_text offsets scale =
     printf_f (offsets 0) @ [CHR 0x0A] @ printf_f (offsets 1) @ [CHR 0x0A]
       @ printf_f (offsets 2) @ [CHR 0x0A] @ printf_f (scale 0) @ [CHR 0x0A]
       @ printf_f (scale 1) @ [CHR 0x0A] @ printf_f (scale 2) @ [CHR 0x0A]"

definition write_mag_cal_to_disk ::
  "mpu_defs \<Rightarrow> env \<Rightarrow> cfarray \<Rightarrow> cfarray \<Rightarrow> driver \<Rightarrow> status \<times> driver" where
  "write_mag_cal_to_disk D E offsets scale s =
    (let file_path = CONFIG_DIRECTORY D @ MAG_CAL_FILE D;
         (opened, s1) = open_cal_file_w D E file_path s
     in if \<not> opened then (ERR FileError, s1)
        else if fprintf_fails E file_path
        then (ERR FileError, say ''Failed to write mag calibration to file'' s1)
        else (OK, s1\<lparr>files := (files s1)(file_path \<mapsto> mag_cal_text offsets scale)\<rparr>))"

text \<open>Lines 2028-2061. The six values are read into \<open>float\<close> variables and copied to the
  driver's offsets and scales. Those are reals in this model: a run in which one of the six
  is an infinity or a NaN (the text overflows a \<open>float\<close>, or an unassigned variable held one)
  is outside the model, and the result is \<open>None\<close>.\<close>

definition load_mag_calibration :: "mpu_defs \<Rightarrow> env \<Rightarrow> driver \<Rightarrow> (status \<times> driver) option" where
  "load_mag_calibration D E s =
    (let file_path = CONFIG_DIRECTORY D @ MAG_CAL_FILE D in
     case files s file_path of
       None \<Rightarrow> Some (ERR NoCalFile,
                      say ''Please run calibrate_mag''
                        (say ''WARNING: no magnetometer calibration data found'' s))
     | Some cal \<Rightarrow>
        (let vs = fscanf_floats 6 cal in
         case those (map (\<lambda>k. cf_real (scanned_float E vs k)) [0, 1, 2, 3, 4, 5]) of
           None \<Rightarrow> None
         | Some v \<Rightarrow>
            Some (OK, s\<lparr>mag_offsets := (mag_offsets s)(0 := v ! 0, 1 := v ! 1, 2 := v ! 2),
                         mag_scales := (mag_scales s)(0 := v ! 3, 1 := v ! 4, 2 := v ! 5)\<rparr>)))"

section \<open>Bring-up (initialize\_imu\_dmp, lines 446-614)\<close>

text \<open>Modelled from the spec: the macro \<open>DMP_MAX_RATE\<close> is declared in a header that is not
  part of the sources. The spec gives the device's maximum output rate as 200 Hz, and the
  bring-up's own message asks for a divisor of 200.\<close>

definition DMP_MAX_RATE :: int where "DMP_MAX_RATE = 200"

text \<open>A call into the GPIO layer or the bus set-up that reports success or failure.\<close>

definition ext :: "env \<Rightarrow> hw_event \<Rightarrow> driver \<Rightarrow> bool \<times> driver" where
  "ext E ev s = (let s1 = emit ev s in (call_fails E (bus s1), s1))"

text \<open>A function of the driver whose body no property below depends on (or that is not part
  of the sources): it is logged, the environment says what it does to the driver and
  whether it reports failure.\<close>

definition invoke :: "env \<Rightarrow> callee \<Rightarrow> driver \<Rightarrow> bool \<times> driver" where
  "invoke E c s = (let s1 = callee_effect E c (emit (Invoke c) s) in (call_fails E (bus s1), s1))"

text \<open>Lines 312-314.\<close>

definition reset_mpu9250 :: "driver \<Rightarrow> status \<times> driver" where
  "reset_mpu9250 s = (OK, s)"

text \<open>Lines 515-613: the part of the bring-up after the calibration is loaded.\<close>

definition initialize_imu_dmp_configure ::
  "mpu_defs \<Rightarrow> env \<Rightarrow> imu_config_t \<Rightarrow> driver \<Rightarrow> status \<times> driver" where
  "initialize_imu_dmp_configure D E conf s9 =
    (let s10 = s9\<lparr>dmp_en := 1, config := conf\<rparr>;
         s11 = snd (invoke E Set_accel_dlpf (snd (invoke E Set_gyro_dlpf
                 (snd (invoke E Set_accel_fsr (snd (invoke E Set_gyro_fsr s10)))))));
         (r12, s12) = mpu_set_sample_rate E (dmp_sample_rate (config s11)) s11
     in if ret_code r12 < 0
        then (ERR (CalleeFailed Mpu_set_sample_rate),
              emit ReleaseBus (say ''ERROR: setting IMU sample rate'' s12))
        else
     (let (f13, s13) = (if enable_magnetometer conf \<noteq> 0
                        then invoke E Initialize_magnetometer s12
                        else (False, snd (invoke E Power_down_magnetometer s12)))
      in if f13
         then (ERR (CalleeFailed Initialize_magnetometer),
               emit ReleaseBus (say ''ERROR: failed to initialize_magnetometer'' s13))
         else
     (let (r14, s14) = dmp_load_motion_driver_firmware D E s13
      in if ret_code r14 < 0
         then (ERR (CalleeFailed Dmp_load_motion_driver_firmware),
               emit ReleaseBus (say ''failed to load DMP motion driver'' s14))
         else
     (let (f15, s15) = invoke E Dmp_set_orientation s14
      in if f15
         then (ERR (CalleeFailed Dmp_set_orientation),
               emit ReleaseBus (say ''ERROR: failed to set dmp orientation'' s15))
         else
     (let (f16, s16) = invoke E Dmp_enable_feature s15
      in if f16
         then (ERR (CalleeFailed Dmp_enable_feature),
               emit ReleaseBus (say ''ERROR: failed to enable DMP features'' s16))
         else
     (let (r17, s17) = dmp_set_fifo_rate D E (word_of_int (dmp_sample_rate (config s16))) s16
      in if ret_code r17 < 0
         then (ERR (CalleeFailed Dmp_set_fifo_rate),
               emit ReleaseBus (say ''ERROR: failed to set DMP fifo rate'' s17))
         else
     (let (f18, s18) = invoke E Dmp_set_interrupt_mode s17
      in if f18
         then (ERR (CalleeFailed Dmp_set_interrupt_mode),
               emit ReleaseBus
                 (say ''ERROR: failed to set DMP interrupt mode to continuous'' s18))
         else
     (let (f19, s19) = invoke E Mpu_set_dmp_state s18
      in if f19
         then (ERR (CalleeFailed Mpu_set_dmp_state),
               emit ReleaseBus (say ''ERROR: mpu_set_dmp_state(1) failed'' s19))
         else
     (let s20 = (if enable_magnetometer conf \<noteq> 0
                 then (let t1 = snd (i2c_write_byte E FIFO_EN (FIFO_SLV0_EN D) s19);
                           t2 = snd (i2c_write_byte E I2C_MST_CTRL 0x8D t1);
                           t3 = snd (i2c_write_byte E I2C_SLV0_ADDR 0x8C t2);
                           t4 = snd (i2c_write_byte E I2C_SLV0_REG (AK8963_XOUT_L D) t3);
                           t5 = snd (i2c_write_byte E I2C_SLV0_CTRL 0x87 t4)
                       in t5\<lparr>packet_len := packet_len t5 + 7\<rparr>)
                 else s19);
          s21 = emit ReleaseBus s20;
          s22 = s21\<lparr>interrupt_running := 1, shutdown_interrupt_thread := 0\<rparr>;
          s23 = s22\<lparr>interrupt_running := 1\<rparr>
      in (OK, emit PthreadCreate s23))))))))))"

text \<open>Lines 446-513. A sample rate of 0 can only pass the range check when \<open>DMP_MIN_RATE\<close>
  is not positive; the remainder of line 457 then traps.\<close>

definition initialize_imu_dmp ::
  "mpu_defs \<Rightarrow> env \<Rightarrow> imu_config_t \<Rightarrow> driver \<Rightarrow> status \<times> driver" where
  "initialize_imu_dmp D E conf s0 =
    (if dmp_sample_rate conf > DMP_MAX_RATE \<or> dmp_sample_rate conf < DMP_MIN_RATE D
     then (ERR RateRange, say ''ERROR:dmp_sample_rate must be between %d & %d'' s0)
     else if dmp_sample_rate conf = 0 then (ERR DivisionByZero, s0)
     else if DMP_MAX_RATE mod dmp_sample_rate conf \<noteq> 0
     then (ERR RateNotDivisor,
           say ''acceptable values: 200,100,50,40,25,20,10,8,5,4 (HZ)''
             (say ''DMP sample rate must be a divisor of 200'' s0))
     else
     (let (f1, s1) = ext E GpioExport s0
      in if f1 then (ERR GpioError, say (''can'' @ [CHR 0x27] @ ''t export gpio %d '') s1)
         else
     (let s2 = emit GpioSetEdge (emit GpioSetDir s1);
          s3 = emit GetInUseState s2;
          s4 = (if in_use E (bus s3)
                then say ''Continuing with initialize_imu_dmp() anyway''
                       (say ''WARNING: i2c bus claimed by another process'' s3)
                else s3);
          (f5, s5) = ext E I2cInit s4
      in if f5 then (ERR BusError, say ''initialize_imu_dmp failed at i2c_init'' s5)
         else
     (let s6 = emit ClaimBus s5;
          (r7, s7) = reset_mpu9250 s6
      in if ret_code r7 < 0
         then (ERR BusError, emit ReleaseBus (say ''failed to reset_mpu9250()'' s7))
         else
     (let (c, s8) = i2c_read_byte E WHO_AM_I_MPU9250 s7
      in case c of
           None \<Rightarrow> (ERR BusError, emit ReleaseBus (say ''i2c_read_byte failed'' s8))
         | Some c \<Rightarrow>
            if c \<noteq> 0x71
            then (ERR WrongIdentity,
                  emit ReleaseBus
                    (say ''WHO AM I returned: 0x%x''
                       (say ''mpu9250 WHO AM I register should return 0x71'' s8)))
            else
             (let (r9, s9) = load_gyro_offets D E s8
              in if ret_code r9 < 0
                 then (ERR (CalleeFailed Load_gyro_offets),
                       emit ReleaseBus
                         (say ''ERROR: failed to load gyro calibration offsets'' s9))
                 else initialize_imu_dmp_configure D E conf s9))))))"

section \<open>Sampler task (imu\_interrupt\_handler, lines 1201-1274)\<close>

text \<open>The user callback is foreign code: its call is the event \<open>UserCallback\<close>. Other threads
  act on the driver's flags between two passes of the loop.\<close>

definition set_imu_interrupt_func :: "driver \<Rightarrow> driver" where
  "set_imu_interrupt_func s = s\<lparr>interrupt_running := 1\<rparr>"

definition stop_imu_interrupt_func :: "driver \<Rightarrow> driver" where
  "stop_imu_interrupt_func s = s\<lparr>interrupt_running := 0\<rparr>"

datatype user_action = Set_func | Stop_func | Request_shutdown

fun user_act :: "user_action \<Rightarrow> driver \<Rightarrow> driver" where
  "user_act Set_func s = set_imu_interrupt_func s"
| "user_act Stop_func s = stop_imu_interrupt_func s"
| "user_act Request_shutdown s = s\<lparr>shutdown_interrupt_thread := 1\<rparr>"

text \<open>One pass of the loop as the outside world drives it: what other threads did before the
  loop test, whether the program state is \<open>EXITING\<close>, and whether \<open>poll\<close> came back with the
  edge (\<open>POLLPRI\<close>) or timed out.\<close>

record cycle =
  before :: "user_action list"
  state_exiting :: bool
  pollpri :: bool

text \<open>Lines 1220-1231: an edge was received; the time stamp is taken and the bus claimed.\<close>

definition handler_claim :: "env \<Rightarrow> driver \<Rightarrow> driver" where
  "handler_claim E s1 =
    (let s2 = emit ReadGpioValue s1;
         s3 = s2\<lparr>last_interrupt_timestamp_micros := micros_since_epoch E (bus s2)\<rparr>;
         s4 = emit GetInUseState s3;
         s5 = (if in_use E (bus s4)
               then say ''IMU interrupt was received. Reading IMU anyway.''
                      (say ''WARNING: Something has claimed the I2C bus when an'' s4)
               else s4)
     in emit ClaimBus s5)"

text \<open>Lines 1232-1237: the FIFO is read, the bus released and the outcome recorded.\<close>

definition handler_read :: "mpu_defs \<Rightarrow> mathlib \<Rightarrow> env \<Rightarrow> driver \<Rightarrow> driver" where
  "handler_read D M E s6 =
    (let (ret, s7) = read_dmp_fifo D M E s6;
         s8 = emit ReleaseBus s7
     in s8\<lparr>last_read_successful := (if ret_code ret = 0 then 1 else 0)\<rparr>)"

text \<open>Lines 1220-1245: the work on an edge. The result is the new \<open>first_run\<close>.\<close>

definition handler_edge ::
  "mpu_defs \<Rightarrow> mathlib \<Rightarrow> env \<Rightarrow> int \<Rightarrow> driver \<Rightarrow> int \<times> driver" where
  "handler_edge D M E first_run s1 =
    (let s9 = handler_read D M E (handler_claim E s1)
     in if first_run = 1 then (0, s9)
        else if interrupt_running s9 \<noteq> 0 then (first_run, emit UserCallback s9)
        else (first_run, s9))"

fun handler_loop ::
  "mpu_defs \<Rightarrow> mathlib \<Rightarrow> env \<Rightarrow> int \<Rightarrow> cycle list \<Rightarrow> driver \<Rightarrow> driver" where
  "handler_loop D M E first_run [] s = s"
| "handler_loop D M E first_run (c # cs) s =
    (let s0 = fold user_act (before c) s in
     if state_exiting c \<or> shutdown_interrupt_thread s0 = 1 then emit GpioFdClose s0
     else
      (let s1 = emit Poll s0 in
       if pollpri c
       then (let (fr, s2) = handler_edge D M E first_run s1 in handler_loop D M E fr cs s2)
       else handler_loop D M E first_run cs s1))"

definition imu_interrupt_handler ::
  "mpu_defs \<Rightarrow> mathlib \<Rightarrow> env \<Rightarrow> cycle list \<Rightarrow> driver \<Rightarrow> driver" where
  "imu_interrupt_handler D M E cs s =
    (let (f, s1) = ext E GpioFdOpen s in
     if f then say ''aborting imu_interrupt_handler''
                 (say (''ERROR: can'' @ [CHR 0x27] @ ''t open IMU_INTERRUPT_PIN gpio fd'') s1)
     else handler_loop D M E 1 cs (snd (mpu_reset_fifo D E s1)))"

text \<open>The number of times the user callback has run.\<close>

definition callbacks :: "driver \<Rightarrow> nat" where
  "callbacks s = length (filter (\<lambda>e. e = UserCallback) (bus s))"

text \<open>What the sampler's bookkeeping rests on: the callbacks so far and the two flags that
  other threads set.\<close>

definition sview :: "driver \<Rightarrow> nat \<times> int \<times> int" where
  "sview s = (callbacks s, interrupt_running s, shutdown_interrupt_thread s)"

section \<open>Magnetometer calibration (calibrate\_mag\_routine, lines 2072-2207)\<close>

text \<open>Lines 2133-2155: the sampling loop, with the number of passes left. \<open>read_mag_data\<close> and
  \<open>get_state\<close> are answered by the environment. The result is the number of samples taken
  and the matrix of samples.\<close>

fun mag_sample_loop ::
  "env \<Rightarrow> nat \<Rightarrow> nat \<Rightarrow> real list list \<Rightarrow> driver \<Rightarrow> nat \<times> real list list \<times> driver" where
  "mag_sample_loop E 0 i A s = (i, A, s)"
| "mag_sample_loop E (Suc k) i A s =
    (let s0 = emit GetState s in
     if exiting E (bus s0) then (i, A, s0)
     else
      (let s1 = emit (Invoke Read_mag_data) s0 in
       case mag_sample E (bus s1) of
         None \<Rightarrow> (i, A, say ''ERROR: failed to read magnetometer'' s1)
       | Some m \<Rightarrow>
          if m 0 = 0 \<and> m 1 = 0 \<and> m 2 = 0
          then (i, A, say ''ERROR: retreived all zeros from magnetometer'' s1)
          else
           (let s2 = (if (i + 1) mod 20 = 0 then say ''keep spinning'' s1 else s1)
            in mag_sample_loop E k (i + 1) (A @ [[m 0, m 1, m 2]])
                 (usleep (1000000 div 20) s2))))"

text \<open>Lines 2080-2160: the bus is claimed, the chip is identified, the magnetometer is
  started, the calibration in memory is set to offsets 0 and scales 1, and 200 samples are
  collected. The result is the matrix of samples.\<close>

definition mag_collect :: "env \<Rightarrow> driver \<Rightarrow> (error + real list list) \<times> driver" where
  "mag_collect E s =
    (let s0 = emit GetInUseState s in
     if in_use E (bus s0)
     then (Inl BusClaimed, say ''aborting gyro calibration()''
                             (say ''i2c bus claimed by another process'' s0))
     else
     (let (f1, s1) = ext E I2cInit s0
      in if f1 then (Inl BusError, say ''initialize_imu_dmp failed at i2c_init'' s1)
         else
     (let s2 = emit ClaimBus s1;
          (r3, s3) = reset_mpu9250 s2
      in if ret_code r3 < 0 then (Inl BusError, say ''ERROR: failed to reset MPU9250'' s3)
         else
     (let (c, s4) = i2c_read_byte E WHO_AM_I_MPU9250 s3
      in case c of
           None \<Rightarrow> (Inl BusError,
                     emit ReleaseBus (say ''Reading WHO_AM_I_MPU9250 register failed'' s4))
         | Some c \<Rightarrow>
            if c \<noteq> 0x71
            then (Inl WrongIdentity,
                  emit ReleaseBus
                    (say ''WHO AM I returned: 0x%x''
                       (say ''mpu9250 WHO AM I register should return 0x71'' s4)))
            else
     (let (f5, s5) = invoke E Initialize_magnetometer s4
      in if f5
         then (Inl (CalleeFailed Initialize_magnetometer),
               emit ReleaseBus (say ''ERROR: failed to initialize_magnetometer'' s5))
         else
     (let s6 = s5\<lparr>mag_offsets := (mag_offsets s5)(0 := 0, 1 := 0, 2 := 0),
                  mag_scales := (mag_scales s5)(0 := 1, 1 := 1, 2 := 1)\<rparr>;
          (i, A, s7) = mag_sample_loop E 200 0 [] s6;
          s8 = emit ReleaseBus (snd (invoke E Power_off_imu s7))
      in if i < 200
         then (Inl TooFewSamples,
               say ''exiting calibrate_mag_routine without saving new data'' s8)
         else (Inr A, s8)))))))"

text \<open>Lines 2161-2207: the fit is checked and stored. The centre is compared in \<open>double\<close>
  (\<open>fabs\<close>), the lengths as \<open>float\<close>; \<open>70.0/lengths.data[i]\<close> is a \<open>double\<close> division, and the
  assignment to \<open>float new_scale[i]\<close> rounds the quotient to a \<open>float\<close>.\<close>

definition mag_fit_and_store ::
  "mpu_defs \<Rightarrow> env \<Rightarrow> real list list \<Rightarrow> driver \<Rightarrow> status \<times> driver" where
  "mag_fit_and_store D E A s =
    (case fitEllipsoid E A of
       None \<Rightarrow> (ERR FitFailed, say ''failed to fit ellipsoid to magnetometer data'' s)
     | Some (center, lengths) \<Rightarrow>
        if cf_gt (cf_fabs (center 0)) 70 \<or> cf_gt (cf_fabs (center 1)) 70
             \<or> cf_gt (cf_fabs (center 2)) 70
        then (ERR CenterOutOfBounds, say ''ERROR: center of fitted ellipsoid out of bounds'' s)
        else if cf_gt (lengths 0) 140 \<or> cf_lt (lengths 0) 5 \<or> cf_gt (lengths 1) 140
                  \<or> cf_lt (lengths 1) 5 \<or> cf_gt (lengths 2) 140 \<or> cf_lt (lengths 2) 5
        then (ERR LengthOutOfBounds, say ''ERROR: length of fitted ellipsoid out of bounds'' s)
        else
         (let new_scale = (\<lambda>_. Finite False 0)
                (0 := double_to_float (double_div 70 (lengths 0)),
                 1 := double_to_float (double_div 70 (lengths 1)),
                 2 := double_to_float (double_div 70 (lengths 2)));
              (r, s1) = write_mag_cal_to_disk D E center new_scale s
          in if ret_code r < 0 then (ERR FileError, s1) else (OK, s1)))"

definition calibrate_mag_routine :: "mpu_defs \<Rightarrow> env \<Rightarrow> driver \<Rightarrow> status \<times> driver" where
  "calibrate_mag_routine D E s =
    (case mag_collect E s of
       (Inl e, s8) \<Rightarrow> (ERR e, s8)
     | (Inr A, s8) \<Rightarrow> mag_fit_and_store D E A s8)"

section \<open>Frame and example inputs\<close>

text \<open>The driver without its hardware history and its console: what a function leaves alone
  when it only talks to the outside world.\<close>

definition frame :: "driver \<Rightarrow> driver" where
  "frame s = s\<lparr>bus := [], console := []\<rparr>"

text \<open>Concrete inputs on which the theorems below are exercised: register bits as in the
  vendor's data sheet, a math library of trivial functions, a driver after bring-up without
  magnetometer, and an outside world that answers every count read with \<open>w\<close> and every
  buffer read with \<open>raw\<close>.\<close>

definition example_defs :: mpu_defs where
  "example_defs = \<lparr>BIT_FIFO_RST = 0x04, BIT_DMP_RST = 0x08, BIT_DMP_EN = 0x80,
     BIT_FIFO_EN = 0x40, I2C_MST_EN = 0x20, BIT_DMP_INT_EN = 0x02, FIFO_SLV0_EN = 0x01,
     MAGNETOMETER_SATURATION = 0x08, MAG_RAW_TO_uT = 4912 / 32760,
     TB_PITCH_X = 0, TB_ROLL_Y = 1, TB_YAW_Z = 2, PI = 355 / 113, TWO_PI = 710 / 113,
     YAW_MIX_FACTOR = 50, DMP_MIN_RATE = 4, DMP_SAMPLE_RATE = 200, MPU6500_BANK_SIZE = 256,
     D_0_22 = 534, CFG_6 = 2753,
     regs_end = [0xFE, 0xF2, 0xAB, 0xC4, 0xAA, 0xF1, 0xDF, 0xDF, 0xBB, 0xAF, 0xDF, 0xDF],
     dmp_firmware = [0x00, 0x00, 0x70, 0x00, 0x00, 0x00, 0x00, 0x24, 0x00, 0x00, 0x00, 0x02,
       0x00, 0x03, 0x00, 0x00, 0x00, 0x65, 0x00, 0x54],
     dmp_start_addr = 0x0400, AK8963_XOUT_L = 0x03, CONFIG_DIRECTORY = ''/root/robot_config/'',
     GYRO_CAL_FILE = ''gyro.cal'', MAG_CAL_FILE = ''mag.cal''\<rparr>"

definition example_math :: mathlib where
  "example_math = \<lparr>normalizeQuaternion = (\<lambda>q. q), quaternionToTaitBryan = (\<lambda>q. (\<lambda>_. 0)),
     TaitBryanToQuaternion = (\<lambda>v. (\<lambda>_. 0)), tilt_compensate = (\<lambda>a b. a),
     atan2f = (\<lambda>y x. Some 0)\<rparr>"

definition example_config :: imu_config_t where
  "example_config = \<lparr>accel_fsr = A_FSR_4G, gyro_fsr = G_FSR_1000DPS, gyro_dlpf = GYRO_DLPF_184,
     accel_dlpf = ACCEL_DLPF_184, enable_magnetometer = 0, dmp_sample_rate = 100,
     orientation = ORIENTATION_Z_UP, compass_mix_factor = 0, dmp_interrupt_priority = 99,
     show_warnings = 0\<rparr>"

definition example_data :: imu_data_t where
  "example_data = \<lparr>accel = (\<lambda>_. 0), gyro = (\<lambda>_. 0), mag = (\<lambda>_. 0), temp = 0,
     raw_gyro = (\<lambda>_. 0), raw_accel = (\<lambda>_. 0), accel_to_ms2 = 1, gyro_to_degs = 1,
     dmp_quat = (\<lambda>_. 0), dmp_TaitBryan = (\<lambda>_. 0), fused_quat = (\<lambda>_. 0),
     fused_TaitBryan = (\<lambda>_. 0), compass_heading = 0\<rparr>"

definition example_driver :: driver where
  "example_driver = \<lparr>config = example_config, bypass_en = 0, dmp_en = 1, packet_len = 28,
     interrupt_running = 1, shutdown_interrupt_thread = 0, last_read_successful = 0,
     last_interrupt_timestamp_micros = 0, mag_factory_adjust = (\<lambda>_. 1),
     mag_offsets = (\<lambda>_. 0), mag_scales = (\<lambda>_. 1), data = example_data,
     rdf_first_run = 1, lastDMPYaw = 0, lastYaw = 0, df_first_run = 1,
     bus = [], console = [], files = (\<lambda>_. None), dirs = {}\<rparr>"

definition example_env :: "16 word \<Rightarrow> byte list \<Rightarrow> env" where
  "example_env w raw = \<lparr>write_fails = (\<lambda>h. False), read_byte_result = (\<lambda>h. Some 0x71),
     read_word_result = (\<lambda>h. Some w), read_bytes_result = (\<lambda>h. Some raw),
     call_fails = (\<lambda>h. False), callee_effect = (\<lambda>c s. s),
     fopen_w_ok = (\<lambda>ds p. True), fprintf_fails = (\<lambda>p. False),
     micros_since_epoch = (\<lambda>h. 0), in_use = (\<lambda>h. False), exiting = (\<lambda>h. False),
     mag_sample = (\<lambda>h. Some (\<lambda>_. 30)),
     fitEllipsoid = (\<lambda>A. Some ((\<lambda>_. Finite False 10), (\<lambda>_. Finite False 35))),
     stack_int = (\<lambda>k. 0), stack_float = (\<lambda>k. Finite False 0)\<rparr>"

text \<open>An outside world whose first count read answers \<open>w1\<close> and whose later count reads
  answer \<open>w2\<close>.\<close>

definition example_env_reread :: "16 word \<Rightarrow> 16 word \<Rightarrow> byte list \<Rightarrow> env" where
  "example_env_reread w1 w2 raw =
     (example_env w2 raw)\<lparr>read_word_result := (\<lambda>h. if length h \<le> 2 then Some w1 else Some w2)\<rparr>"

text \<open>A 35 byte packet whose magnetometer block reads \<open>(1, 0, 0)\<close>, unsaturated, and whose
  quaternion is all zero.\<close>

definition example_bad_packet :: "byte list" where
  "example_bad_packet = [1, 0, 0, 0, 0, 0, 0] @ replicate 28 0"

text \<open>A 28 byte packet: quaternion \<open>(2^30, 0, 0, 0)\<close>, accelerometer \<open>(100, -100, 200)\<close>,
  gyroscope \<open>(10, -10, 5)\<close>.\<close>

definition example_good_packet :: "byte list" where
  "example_good_packet =
     [0x40, 0, 0, 0, 0, 0, 0, 0, 0, 0, 0, 0, 0, 0, 0, 0,
      0x00, 0x64, 0xFF, 0x9C, 0x00, 0xC8, 0x00, 0x0A, 0xFF, 0xF6, 0x00, 0x05]"

section \<open>Properties of the FIFO decoder\<close>

lemma frame_emit [simp]: "frame (emit e s) = frame s"
  by (simp add: frame_def emit_def)

lemma frame_say [simp]: "frame (say m s) = frame s"
  by (simp add: frame_def say_def)

lemma frame_warn [simp]: "frame (warn m s) = frame s"
  by (simp add: warn_def)

lemma frame_usleep [simp]: "frame (usleep n s) = frame s"
  by (simp add: usleep_def)

lemma frame_i2c_write_byte [simp]: "frame (snd (i2c_write_byte E r v s)) = frame s"
  by (simp add: i2c_write_byte_def Let_def)

lemma frame_i2c_write_bytes [simp]: "frame (snd (i2c_write_bytes E r v s)) = frame s"
  by (simp add: i2c_write_bytes_def Let_def)

lemma frame_i2c_read_word [simp]: "frame (snd (i2c_read_word E r s)) = frame s"
  by (simp add: i2c_read_word_def Let_def)

lemma frame_i2c_read_bytes [simp]: "frame (snd (i2c_read_bytes E r n s)) = frame s"
  by (simp add: i2c_read_bytes_def Let_def)

lemma frame_mpu_reset_fifo [simp]: "frame (snd (mpu_reset_fifo D E s)) = frame s"
  by (simp add: mpu_reset_fifo_def Let_def split_beta)

lemma frame_sel:
  "packet_len s = packet_len (frame s)" "data s = data (frame s)" "config s = config (frame s)"
  "dmp_en s = dmp_en (frame s)" "rdf_first_run s = rdf_first_run (frame s)"
  "mag_scales s = mag_scales (frame s)" "lastYaw s = lastYaw (frame s)"
  "lastDMPYaw s = lastDMPYaw (frame s)" "df_first_run s = df_first_run (frame s)"
  "files s = files (frame s)" "dirs s = dirs (frame s)"
  "interrupt_running s = interrupt_running (frame s)"
  by (simp_all add: frame_def)

lemma frame_fields:
  assumes "frame s' = frame s"
  shows "packet_len s' = packet_len s" "data s' = data s" "config s' = config s"
    "dmp_en s' = dmp_en s" "rdf_first_run s' = rdf_first_run s" "mag_scales s' = mag_scales s"
    "lastYaw s' = lastYaw s" "lastDMPYaw s' = lastDMPYaw s" "df_first_run s' = df_first_run s"
    "files s' = files s" "dirs s' = dirs s" "interrupt_running s' = interrupt_running s"
  using assms frame_sel [of s] frame_sel [of s'] by simp_all

lemma frame_fifo_count_check [simp]: "frame (snd (fifo_count_check D E s)) = frame s"
  by (simp add: fifo_count_check_def Let_def split_beta split: option.splits)


lemma fifo_count_check_Inr:
  assumes "fifo_count_check D E s = (Inr c, s')"
  shows "c = packet_len s \<or> c = 2 * packet_len s"
  using assms
  by (auto simp add: fifo_count_check_def Let_def split_beta i2c_read_word_def emit_def
        usleep_def split: option.splits if_splits)

lemma fifo_count_check_frame:
  assumes "fifo_count_check D E s = (r, s')"
  shows "frame s' = frame s"
  using frame_fifo_count_check [of D E s] assms by simp

lemma fifo_count_check_not_false_interrupt:
  "fst (fifo_count_check D E s) \<noteq> Inl FalseInterrupt"
  by (simp add: fifo_count_check_def Let_def split_beta split: option.splits)

lemma read_fifo_buffer_not_false_interrupt:
  "fst (read_fifo_buffer E c s) \<noteq> Inl FalseInterrupt"
  by (simp add: read_fifo_buffer_def Let_def split_beta split: option.splits)

lemma decode_packet_not_false_interrupt:
  "fst (decode_packet D M raw i s) \<noteq> ERR FalseInterrupt"
  by (simp add: decode_packet_def Let_def split_beta)

lemma select_offset_aligned:
  assumes "packet_len s = FIFO_LEN_NO_MAG \<or> packet_len s = FIFO_LEN_MAG"
    and "c = packet_len s \<or> c = 2 * packet_len s"
  shows "select_offset s c = (Inr 0, s) \<or> fst (select_offset s c) = Inr (packet_len s)"
  using assms by (auto simp add: select_offset_def FIFO_LEN_NO_MAG_def FIFO_LEN_MAG_def)

text \<open>
  C10. Whenever \<open>read_dmp_fifo\<close> gets to the choice of the decode offset, with
  \<open>packet_len\<close> 28 or 35 as its entry guard demands, the FIFO count it goes on with is
  \<open>packet_len\<close> or \<open>2 * packet_len\<close>; the offset is 0 or \<open>packet_len\<close>, and the last
  branch of the choice (the "false interrupt" exit) is never taken: no call of
  \<open>read_dmp_fifo\<close> ends there.
\<close>

theorem C10_offset_fallback_unreachable:
  "fst (read_dmp_fifo D M E s) \<noteq> ERR FalseInterrupt \<and>
   (\<forall>c s'. (packet_len s = FIFO_LEN_NO_MAG \<or> packet_len s = FIFO_LEN_MAG) \<and>
            fifo_count_check D E s = (Inr c, s') \<longrightarrow>
       (c = packet_len s' \<or> c = 2 * packet_len s') \<and>
       (select_offset s' c = (Inr 0, s') \<or> fst (select_offset s' c) = Inr (packet_len s')))"
proof (intro conjI allI impI)
  show "fst (read_dmp_fifo D M E s) \<noteq> ERR FalseInterrupt"
  proof (cases "dmp_en s = 0 \<or> (packet_len s \<noteq> FIFO_LEN_NO_MAG \<and> packet_len s \<noteq> FIFO_LEN_MAG)")
    case True
    then show ?thesis by (auto simp add: read_dmp_fifo_def)
  next
    case False
    let ?s1 = "emit SetDeviceAddress s"
    obtain r s2 where fc: "fifo_count_check D E ?s1 = (r, s2)" by (cases "fifo_count_check D E ?s1")
    have pl: "packet_len s2 = packet_len s"
      using frame_fields(1) [OF fifo_count_check_frame [OF fc]] by (simp add: emit_def)
    show ?thesis
    proof (cases r)
      case (Inl e)
      with fc fifo_count_check_not_false_interrupt [of D E ?s1] False show ?thesis
        by (auto simp add: read_dmp_fifo_def)
    next
      case (Inr c)
      with fc have al: "c = packet_len s2 \<or> c = 2 * packet_len s2"
        using fifo_count_check_Inr [of D E ?s1 c s2] pl by (simp add: emit_def)
      have g: "packet_len s2 = FIFO_LEN_NO_MAG \<or> packet_len s2 = FIFO_LEN_MAG"
        using False pl by auto
      from select_offset_aligned [OF g al]
      obtain i s3 where so: "select_offset s2 c = (Inr i, s3)"
        by (cases "select_offset s2 c") auto
      obtain b s4 where rb: "read_fifo_buffer E c s3 = (b, s4)" by (cases "read_fifo_buffer E c s3")
      show ?thesis
        using False fc Inr so rb read_fifo_buffer_not_false_interrupt [of E c s3]
          decode_packet_not_false_interrupt [of D M _ "nat i" s4]
        by (auto simp add: read_dmp_fifo_def split: sum.splits)
    qed
  qed
next
  fix c s'
  assume a: "(packet_len s = FIFO_LEN_NO_MAG \<or> packet_len s = FIFO_LEN_MAG) \<and>
            fifo_count_check D E s = (Inr c, s')"
  then have pl: "packet_len s' = packet_len s"
    using frame_fields(1) [OF fifo_count_check_frame] by blast
  from a have al: "c = packet_len s' \<or> c = 2 * packet_len s'"
    using fifo_count_check_Inr [of D E s c s'] pl by simp
  then show "c = packet_len s' \<or> c = 2 * packet_len s'" .
  from a pl have g: "packet_len s' = FIFO_LEN_NO_MAG \<or> packet_len s' = FIFO_LEN_MAG" by simp
  show "select_offset s' c = (Inr 0, s') \<or> fst (select_offset s' c) = Inr (packet_len s')"
    by (rule select_offset_aligned [OF g al])
qed


lemma parse_mag_drop:
  assumes "n \<le> length raw"
  shows "parse_mag D raw (n + i) s = parse_mag D (drop n raw) i s"
  using assms by (simp add: parse_mag_def add.assoc)

lemma parse_quat_drop:
  assumes "n \<le> length raw"
  shows "parse_quat raw (n + i) k = parse_quat (drop n raw) i k"
  using assms by (simp add: parse_quat_def add.assoc)

lemma quat_rejected_drop:
  assumes "n \<le> length raw"
  shows "quat_rejected raw (n + i) = quat_rejected (drop n raw) i"
  using assms by (simp add: quat_rejected_def quat_mag_sq_def parse_quat_drop)

lemma store_sample_drop:
  assumes "n \<le> length raw"
  shows "store_sample M raw (n + i) d = store_sample M (drop n raw) i d"
  using assms by (simp add: store_sample_def parse_quat_def Let_def add_ac)

lemma decode_packet_drop:
  assumes "n \<le> length raw"
  shows "decode_packet D M raw n s = decode_packet D M (drop n raw) 0 s"
  using parse_mag_drop [OF assms, of D 0 s] quat_rejected_drop [OF assms, of 0]
    quat_rejected_drop [OF assms, of 7] store_sample_drop [OF assms, of M 0]
    store_sample_drop [OF assms, of M 7]
  by (simp add: decode_packet_def split_beta Let_def del: drop_0)


lemma read_fifo_buffer_length:
  assumes "read_fifo_buffer E c s = (Inr raw, s')"
  shows "int (length raw) = c"
  using assms
  by (auto simp add: read_fifo_buffer_def Let_def split_beta split: option.splits if_splits)

lemma mpu_reset_fifo_bus:
  "\<exists>evs. bus (snd (mpu_reset_fifo D E s)) = bus s @ WriteByte INT_ENABLE 0 # evs"
  by (simp add: mpu_reset_fifo_def Let_def split_beta i2c_write_byte_def emit_def usleep_def)

lemma bus_warn [simp]: "bus (warn m s) = bus s"
  by (simp add: warn_def say_def)

lemma data_fusion_sample:
  "raw_accel (data (snd (data_fusion D M s))) = raw_accel (data s)"
  "raw_gyro (data (snd (data_fusion D M s))) = raw_gyro (data s)"
  "accel (data (snd (data_fusion D M s))) = accel (data s)"
  "gyro (data (snd (data_fusion D M s))) = gyro (data s)"
  "mag (data (snd (data_fusion D M s))) = mag (data s)"
  "dmp_quat (data (snd (data_fusion D M s))) = dmp_quat (data s)"
  "dmp_TaitBryan (data (snd (data_fusion D M s))) = dmp_TaitBryan (data s)"
  "mag_scales (snd (data_fusion D M s)) = mag_scales s"
  by (simp_all add: data_fusion_def Let_def say_def split: option.splits)

lemma parse_mag_keeps:
  "raw_accel (data (snd (parse_mag D p i s))) = raw_accel (data s)"
  "raw_gyro (data (snd (parse_mag D p i s))) = raw_gyro (data s)"
  "accel (data (snd (parse_mag D p i s))) = accel (data s)"
  "gyro (data (snd (parse_mag D p i s))) = gyro (data s)"
  "dmp_quat (data (snd (parse_mag D p i s))) = dmp_quat (data s)"
  "dmp_TaitBryan (data (snd (parse_mag D p i s))) = dmp_TaitBryan (data s)"
  "accel_to_ms2 (data (snd (parse_mag D p i s))) = accel_to_ms2 (data s)"
  "gyro_to_degs (data (snd (parse_mag D p i s))) = gyro_to_degs (data s)"
  by (simp_all add: parse_mag_def Let_def say_def)

lemma store_sample_fields:
  "dmp_quat (store_sample M p i d) = normalizeQuaternion M ((dmp_quat d)
       (QUAT_W := real_of_int (sint (be32 (p ! i) (p ! (i + 1)) (p ! (i + 2)) (p ! (i + 3)))),
        QUAT_X := real_of_int (sint (be32 (p ! (i + 4)) (p ! (i + 5)) (p ! (i + 6)) (p ! (i + 7)))),
        QUAT_Y := real_of_int (sint (be32 (p ! (i + 8)) (p ! (i + 9)) (p ! (i + 10)) (p ! (i + 11)))),
        QUAT_Z := real_of_int (sint (be32 (p ! (i + 12)) (p ! (i + 13)) (p ! (i + 14)) (p ! (i + 15))))))"
  "dmp_TaitBryan (store_sample M p i d) = quaternionToTaitBryan M (dmp_quat (store_sample M p i d))"
  "k < 3 \<Longrightarrow> raw_accel (store_sample M p i d) k = word16 (p ! (i + 16 + 2 * k)) (p ! (i + 17 + 2 * k))"
  "k < 3 \<Longrightarrow> accel (store_sample M p i d) k =
      real_of_int (sint (raw_accel (store_sample M p i d) k)) * accel_to_ms2 d"
  "k < 3 \<Longrightarrow> raw_gyro (store_sample M p i d) k = word16 (p ! (i + 22 + 2 * k)) (p ! (i + 23 + 2 * k))"
  "k < 3 \<Longrightarrow> gyro (store_sample M p i d) k =
      real_of_int (sint (raw_gyro (store_sample M p i d) k)) * gyro_to_degs d"
  "mag (store_sample M p i d) = mag d"
proof -
  have k3: "k < 3 \<Longrightarrow> k = 0 \<or> k = 1 \<or> k = 2" by arith
  show "dmp_quat (store_sample M p i d) = normalizeQuaternion M ((dmp_quat d)
       (QUAT_W := real_of_int (sint (be32 (p ! i) (p ! (i + 1)) (p ! (i + 2)) (p ! (i + 3)))),
        QUAT_X := real_of_int (sint (be32 (p ! (i + 4)) (p ! (i + 5)) (p ! (i + 6)) (p ! (i + 7)))),
        QUAT_Y := real_of_int (sint (be32 (p ! (i + 8)) (p ! (i + 9)) (p ! (i + 10)) (p ! (i + 11)))),
        QUAT_Z := real_of_int (sint (be32 (p ! (i + 12)) (p ! (i + 13)) (p ! (i + 14)) (p ! (i + 15))))))"
    by (simp add: store_sample_def parse_quat_def Let_def QUAT_W_def QUAT_X_def QUAT_Y_def
        QUAT_Z_def add_ac)
  show "dmp_TaitBryan (store_sample M p i d) = quaternionToTaitBryan M (dmp_quat (store_sample M p i d))"
    by (simp add: store_sample_def Let_def)
  show "k < 3 \<Longrightarrow> raw_accel (store_sample M p i d) k = word16 (p ! (i + 16 + 2 * k)) (p ! (i + 17 + 2 * k))"
    using k3 by (auto simp add: store_sample_def Let_def add_ac)
  show "k < 3 \<Longrightarrow> accel (store_sample M p i d) k =
      real_of_int (sint (raw_accel (store_sample M p i d) k)) * accel_to_ms2 d"
    using k3 by (auto simp add: store_sample_def Let_def)
  show "k < 3 \<Longrightarrow> raw_gyro (store_sample M p i d) k = word16 (p ! (i + 22 + 2 * k)) (p ! (i + 23 + 2 * k))"
    using k3 by (auto simp add: store_sample_def Let_def add_ac)
  show "k < 3 \<Longrightarrow> gyro (store_sample M p i d) k =
      real_of_int (sint (raw_gyro (store_sample M p i d) k)) * gyro_to_degs d"
    using k3 by (auto simp add: store_sample_def Let_def)
  show "mag (store_sample M p i d) = mag d"
    by (simp add: store_sample_def Let_def)
qed

lemma decode_packet_content:
  assumes d: "decode_packet D M p 0 t = (OK, t')"
  shows "\<not> quat_rejected p (if packet_len t = FIFO_LEN_MAG then 7 else 0)"
    and "dmp_quat (data t') =
          dmp_quat (store_sample M p (if packet_len t = FIFO_LEN_MAG then 7 else 0) (data t))"
    and "dmp_TaitBryan (data t') =
          dmp_TaitBryan (store_sample M p (if packet_len t = FIFO_LEN_MAG then 7 else 0) (data t))"
    and "raw_accel (data t') =
          raw_accel (store_sample M p (if packet_len t = FIFO_LEN_MAG then 7 else 0) (data t))"
    and "accel (data t') =
          accel (store_sample M p (if packet_len t = FIFO_LEN_MAG then 7 else 0) (data t))"
    and "raw_gyro (data t') =
          raw_gyro (store_sample M p (if packet_len t = FIFO_LEN_MAG then 7 else 0) (data t))"
    and "gyro (data t') =
          gyro (store_sample M p (if packet_len t = FIFO_LEN_MAG then 7 else 0) (data t))"
  using d
  by (auto simp add: decode_packet_def Let_def split_beta data_fusion_sample
      store_sample_def parse_mag_keeps split: if_splits)

lemma parse_mag_content:
  assumes "p ! (i + 6) AND MAGNETOMETER_SATURATION D = 0"
    and "word16 (p ! (i + 1)) (p ! i) \<noteq> 0 \<or> word16 (p ! (i + 3)) (p ! (i + 2)) \<noteq> 0 \<or>
         word16 (p ! (i + 5)) (p ! (i + 4)) \<noteq> 0"
  shows "mag (data (snd (parse_mag D p i t))) 0 =
           (real_of_int (sint (word16 (p ! (i + 3)) (p ! (i + 2)))) * mag_factory_adjust t 1 *
              MAG_RAW_TO_uT D - mag_offsets t 0) * mag_scales (snd (parse_mag D p i t)) 0"
    and "mag (data (snd (parse_mag D p i t))) 1 =
           (real_of_int (sint (word16 (p ! (i + 1)) (p ! i))) * mag_factory_adjust t 0 *
              MAG_RAW_TO_uT D - mag_offsets t 1) * mag_scales (snd (parse_mag D p i t)) 1"
    and "mag (data (snd (parse_mag D p i t))) 2 =
           (real_of_int (- sint (word16 (p ! (i + 5)) (p ! (i + 4)))) * mag_factory_adjust t 2 *
              MAG_RAW_TO_uT D - mag_offsets t 2) * mag_scales (snd (parse_mag D p i t)) 2"
    and "k < 3 \<Longrightarrow> mag_scales (snd (parse_mag D p i t)) k =
           (if mag_scales t k = 0 then 1 else mag_scales t k)"
proof -
  have k3: "k < 3 \<Longrightarrow> k = 0 \<or> k = 1 \<or> k = 2" by arith
  from assms show "mag (data (snd (parse_mag D p i t))) 0 =
           (real_of_int (sint (word16 (p ! (i + 3)) (p ! (i + 2)))) * mag_factory_adjust t 1 *
              MAG_RAW_TO_uT D - mag_offsets t 0) * mag_scales (snd (parse_mag D p i t)) 0"
    by (simp add: parse_mag_def Let_def)
  from assms show "mag (data (snd (parse_mag D p i t))) 1 =
           (real_of_int (sint (word16 (p ! (i + 1)) (p ! i))) * mag_factory_adjust t 0 *
              MAG_RAW_TO_uT D - mag_offsets t 1) * mag_scales (snd (parse_mag D p i t)) 1"
    by (simp add: parse_mag_def Let_def)
  from assms show "mag (data (snd (parse_mag D p i t))) 2 =
           (real_of_int (- sint (word16 (p ! (i + 5)) (p ! (i + 4)))) * mag_factory_adjust t 2 *
              MAG_RAW_TO_uT D - mag_offsets t 2) * mag_scales (snd (parse_mag D p i t)) 2"
    by (simp add: parse_mag_def Let_def)
  from assms show "k < 3 \<Longrightarrow> mag_scales (snd (parse_mag D p i t)) k =
           (if mag_scales t k = 0 then 1 else mag_scales t k)"
    using k3 by (auto simp add: parse_mag_def Let_def)
qed

lemma decode_packet_mag:
  assumes "decode_packet D M p 0 t = (OK, t')" and "packet_len t = FIFO_LEN_MAG"
  shows "mag (data t') = mag (data (snd (parse_mag D p 0 t)))"
    and "mag_scales t' = mag_scales (snd (parse_mag D p 0 t))"
  using assms
  by (auto simp add: decode_packet_def Let_def split_beta data_fusion_sample
      store_sample_fields split: if_splits)

lemma decode_packet_verdict:
  "fst (decode_packet D M p 0 t) =
     (if quat_rejected p (if packet_len t = FIFO_LEN_MAG then 7 else 0)
      then ERR QuatOutOfRange else OK)"
  by (simp add: decode_packet_def Let_def split_beta)

lemma i2c_read_word_packet_len:
  assumes "i2c_read_word E r s = (x, s1)"
  shows "packet_len s1 = packet_len s" and "config s1 = config s"
    and "rdf_first_run s1 = rdf_first_run s" and "dmp_en s1 = dmp_en s"
  using assms by (auto simp add: i2c_read_word_def emit_def Let_def)

lemma fifo_count_first:
  assumes r: "i2c_read_word E FIFO_COUNTH s0 = (Some w1, s1)"
    and pl: "0 < packet_len s0"
  shows "uint w1 = packet_len s0 \<Longrightarrow> fifo_count_check D E s0 = (Inr (packet_len s0), s1)"
    and "uint w1 = 2 * packet_len s0 \<Longrightarrow>
           fifo_count_check D E s0 = (Inr (2 * packet_len s0), s1)"
    and "uint w1 > 2 * packet_len s0 \<Longrightarrow>
           fifo_count_check D E s0 =
             (Inl FifoOverflow,
              snd (mpu_reset_fifo D E
                    (warn ''resetting fifo'' (warn ''mpu9250 wrong fifo count: %d'' s1))))"
  using r pl i2c_read_word_packet_len(1) [OF r]
  by (simp_all add: fifo_count_check_def)

lemma fifo_count_second:
  assumes r: "i2c_read_word E FIFO_COUNTH s0 = (Some w1, s1)"
    and short: "uint w1 \<noteq> packet_len s0" "uint w1 < 2 * packet_len s0"
    and r2: "i2c_read_word E FIFO_COUNTH (usleep 2500 s1) = (Some w2, s3)"
  shows "uint w2 = packet_len s0 \<Longrightarrow> fifo_count_check D E s0 = (Inr (packet_len s0), s3)"
    and "uint w2 = 2 * packet_len s0 \<Longrightarrow>
           fifo_count_check D E s0 = (Inr (2 * packet_len s0), s3)"
    and "uint w2 \<noteq> packet_len s0 \<Longrightarrow> uint w2 \<noteq> 2 * packet_len s0 \<Longrightarrow>
           fifo_count_check D E s0 =
             (Inl FifoMisaligned,
              if show_warnings (config s0) \<noteq> 0 \<and> rdf_first_run s0 \<noteq> 1
              then snd (mpu_reset_fifo D E (say ''%d bytes available, resetting FIFO: '' s3))
              else s3)"
proof -
  have p1: "packet_len s1 = packet_len s0" by (rule i2c_read_word_packet_len(1) [OF r])
  have p3: "packet_len s3 = packet_len s0" "config s3 = config s0"
    "rdf_first_run s3 = rdf_first_run s0"
    using i2c_read_word_packet_len [OF r2] i2c_read_word_packet_len [OF r]
    by (simp_all add: usleep_def emit_def)
  show "uint w2 = packet_len s0 \<Longrightarrow> fifo_count_check D E s0 = (Inr (packet_len s0), s3)"
    using r short r2 p1 p3 by (simp add: fifo_count_check_def)
  show "uint w2 = 2 * packet_len s0 \<Longrightarrow>
           fifo_count_check D E s0 = (Inr (2 * packet_len s0), s3)"
    using r short r2 p1 p3 by (simp add: fifo_count_check_def)
  show "uint w2 \<noteq> packet_len s0 \<Longrightarrow> uint w2 \<noteq> 2 * packet_len s0 \<Longrightarrow>
           fifo_count_check D E s0 =
             (Inl FifoMisaligned,
              if show_warnings (config s0) \<noteq> 0 \<and> rdf_first_run s0 \<noteq> 1
              then snd (mpu_reset_fifo D E (say ''%d bytes available, resetting FIFO: '' s3))
              else s3)"
    using r short r2 p1 p3 by (simp add: fifo_count_check_def)
qed

lemma read_dmp_fifo_decodes:
  assumes en: "dmp_en s \<noteq> 0"
    and pl: "packet_len s = FIFO_LEN_NO_MAG \<or> packet_len s = FIFO_LEN_MAG"
    and c: "fifo_count_check D E (emit SetDeviceAddress s) = (Inr c, s2)"
  shows "c = packet_len s \<Longrightarrow> read_fifo_buffer E (packet_len s) s2 = (Inr raw, s4) \<Longrightarrow>
           read_dmp_fifo D M E s = decode_packet D M raw 0 s4"
    and "c = 2 * packet_len s \<Longrightarrow>
         read_fifo_buffer E (2 * packet_len s)
           (warn ''warning: mpu9250 fifo contains two packets'' s2) = (Inr raw, s4) \<Longrightarrow>
           read_dmp_fifo D M E s = decode_packet D M (drop (nat (packet_len s)) raw) 0 s4"
proof -
  have pl2: "packet_len s2 = packet_len s"
    using frame_fields(1) [OF fifo_count_check_frame [OF c]] by (simp add: emit_def)
  {
    assume a: "c = packet_len s" "read_fifo_buffer E (packet_len s) s2 = (Inr raw, s4)"
    have "select_offset s2 (packet_len s) = (Inr 0, s2)"
      using pl pl2 by (auto simp add: select_offset_def FIFO_LEN_NO_MAG_def FIFO_LEN_MAG_def)
    with a c en pl show "read_dmp_fifo D M E s = decode_packet D M raw 0 s4"
      by (auto simp add: read_dmp_fifo_def)
  }
  {
    assume a: "c = 2 * packet_len s"
         "read_fifo_buffer E (2 * packet_len s)
           (warn ''warning: mpu9250 fifo contains two packets'' s2) = (Inr raw, s4)"
    have "select_offset s2 (2 * packet_len s) =
            (Inr (packet_len s), warn ''warning: mpu9250 fifo contains two packets'' s2)"
      using pl2 by (simp add: select_offset_def)
    with a c en pl have 1: "read_dmp_fifo D M E s = decode_packet D M raw (nat (packet_len s)) s4"
      by (auto simp add: read_dmp_fifo_def)
    from a have "int (length raw) = 2 * packet_len s"
      using read_fifo_buffer_length by blast
    with pl have "nat (packet_len s) \<le> length raw"
      by (auto simp add: FIFO_LEN_NO_MAG_def FIFO_LEN_MAG_def)
    then have "decode_packet D M raw (nat (packet_len s)) s4 =
              decode_packet D M (drop (nat (packet_len s)) raw) 0 s4"
      by (rule decode_packet_drop)
    with 1 show "read_dmp_fifo D M E s = decode_packet D M (drop (nat (packet_len s)) raw) 0 s4"
      by simp
  }
qed

lemma read_dmp_fifo_count_fails:
  assumes en: "dmp_en s \<noteq> 0"
    and pl: "packet_len s = FIFO_LEN_NO_MAG \<or> packet_len s = FIFO_LEN_MAG"
    and c: "fifo_count_check D E (emit SetDeviceAddress s) = (Inl e, s2)"
  shows "read_dmp_fifo D M E s = (ERR e, s2)"
  using assms by (auto simp add: read_dmp_fifo_def)


section \<open>The decoder on concrete FIFO contents\<close>

lemmas example_simps =
  example_driver_def example_env_def example_defs_def example_config_def example_data_def
  example_math_def example_good_packet_def example_bad_packet_def

lemmas decoder_simps =
  read_dmp_fifo_def fifo_count_check_def select_offset_def read_fifo_buffer_def
  decode_packet_def parse_mag_def quat_rejected_def quat_mag_sq_def parse_quat_def
  store_sample_def be32_def word16_def mpu_reset_fifo_def
  i2c_read_word_def i2c_read_bytes_def i2c_write_byte_def emit_def usleep_def warn_def say_def
  FIFO_LEN_MAG_def FIFO_LEN_NO_MAG_def QUAT_MAG_SQ_MIN_def QUAT_MAG_SQ_MAX_def
  QUAT_MAG_SQ_NORMALIZED_def QUAT_ERROR_THRESH_def QUAT_W_def QUAT_X_def QUAT_Y_def QUAT_Z_def
  Let_def

theorem C10_offset_fallback_unreachable_witness:
  "fst (read_dmp_fifo example_defs example_math (example_env 28 example_good_packet)
          example_driver) \<noteq> ERR FalseInterrupt \<and>
   fifo_count_check example_defs (example_env 28 example_good_packet) example_driver =
     (Inr 28, emit (ReadWord FIFO_COUNTH) example_driver) \<and>
   select_offset (emit (ReadWord FIFO_COUNTH) example_driver) 28 =
     (Inr 0, emit (ReadWord FIFO_COUNTH) example_driver)"
proof -
  have h: "(packet_len example_driver = FIFO_LEN_NO_MAG \<or> packet_len example_driver = FIFO_LEN_MAG) \<and>
      fifo_count_check example_defs (example_env 28 example_good_packet) example_driver =
     (Inr 28, emit (ReadWord FIFO_COUNTH) example_driver)"
    by (simp add: decoder_simps example_simps)
  have p: "packet_len (emit (ReadWord FIFO_COUNTH) example_driver) = 28"
    by (simp add: emit_def example_driver_def)
  from C10_offset_fallback_unreachable [of example_defs example_math
      "example_env 28 example_good_packet" example_driver]
  have "fst (read_dmp_fifo example_defs example_math (example_env 28 example_good_packet)
          example_driver) \<noteq> ERR FalseInterrupt"
    and "select_offset (emit (ReadWord FIFO_COUNTH) example_driver) 28 =
           (Inr 0, emit (ReadWord FIFO_COUNTH) example_driver) \<or>
         fst (select_offset (emit (ReadWord FIFO_COUNTH) example_driver) 28) = Inr 28"
    using h p by auto
  then show ?thesis using h by (auto simp add: select_offset_def p FIFO_LEN_NO_MAG_def)
qed

text \<open>
  C1 (the code departs from the claim). The claim: whenever the quaternion's scaled squared
  magnitude lies outside the tolerance band, \<open>read_dmp_fifo\<close> fails and every field of the
  sample, the magnetometer values included, keeps its previous value. The decoder stores the
  magnetometer block before it checks the quaternion: with the magnetometer enabled
  (\<open>packet_len = 35\<close>), a 35 byte packet with magnetometer reading \<open>(1, 0, 0)\<close> and an
  all-zero quaternion is rejected (\<open>-1\<close>), yet \<open>mag[1]\<close> of the sample has changed from \<open>0\<close> to
  \<open>1 * 4912 / 32760\<close>.
\<close>

theorem C1_rejected_packet_overwrites_mag:
  "fst (read_dmp_fifo example_defs example_math (example_env 35 example_bad_packet)
          (example_driver\<lparr>packet_len := 35\<rparr>)) = ERR QuatOutOfRange \<and>
   quat_rejected example_bad_packet 7 \<and>
   mag (data (example_driver\<lparr>packet_len := 35\<rparr>)) 1 = 0 \<and>
   mag (data (snd (read_dmp_fifo example_defs example_math (example_env 35 example_bad_packet)
          (example_driver\<lparr>packet_len := 35\<rparr>)))) 1 = 4912 / 32760"
  by (simp add: decoder_simps example_simps)


lemma all_less_3: "(\<forall>k<(3::nat). P k) \<longleftrightarrow> P 0 \<and> P 1 \<and> P 2"
proof
  assume "\<forall>k<3. P k"
  then show "P 0 \<and> P 1 \<and> P 2" by simp
next
  assume a: "P 0 \<and> P 1 \<and> P 2"
  show "\<forall>k<3. P k"
  proof (intro allI impI)
    fix k :: nat
    assume "k < 3"
    then have "k = 0 \<or> k = 1 \<or> k = 2" by arith
    with a show "P k" by auto
  qed
qed



text \<open>What a rejected packet does leave alone: quaternion, Euler angles, accelerometer and
  gyroscope, raw and scaled; and the whole sample when the magnetometer is off.\<close>

lemma decode_packet_rejected:
  assumes "decode_packet D M raw i s = (ERR e, s')"
  shows "dmp_quat (data s') = dmp_quat (data s)"
    and "dmp_TaitBryan (data s') = dmp_TaitBryan (data s)"
    and "accel (data s') = accel (data s)"
    and "gyro (data s') = gyro (data s)"
    and "raw_accel (data s') = raw_accel (data s)"
    and "raw_gyro (data s') = raw_gyro (data s)"
    and "fused_TaitBryan (data s') = fused_TaitBryan (data s)"
    and "packet_len s \<noteq> FIFO_LEN_MAG \<Longrightarrow> data s' = data s"
  using assms
  by (auto simp add: decode_packet_def parse_mag_def Let_def split_beta warn_def say_def
      split: if_splits)

theorem C1_rejected_packet_overwrites_mag_witness:
  "data (snd (read_dmp_fifo example_defs example_math (example_env 35 example_bad_packet)
          (example_driver\<lparr>packet_len := 35\<rparr>))) \<noteq> data (example_driver\<lparr>packet_len := 35\<rparr>)"
proof
  let ?d' = "data (snd (read_dmp_fifo example_defs example_math
                (example_env 35 example_bad_packet) (example_driver\<lparr>packet_len := 35\<rparr>)))"
  let ?d = "data (example_driver\<lparr>packet_len := 35\<rparr>)"
  assume eq: "?d' = ?d"
  from C1_rejected_packet_overwrites_mag
  have "mag ?d 1 = 0" and "mag ?d' 1 = 4912 / 32760" by blast+
  with eq show False by simp
qed

section \<open>Sample rate and bring-up validation\<close>

lemma bus_say [simp]: "bus (say m s) = bus s"
  by (simp add: say_def)

lemma bus_emit [simp]: "bus (emit e s) = bus s @ [e]"
  by (simp add: emit_def)

lemma mpu_set_sample_rate_bus:
  assumes "4 \<le> r" and "r \<le> 1000"
  shows "bus (snd (mpu_set_sample_rate E r s)) =
           bus s @ [WriteByte SMPLRT_DIV (word_of_int (1000 div r - 1))]"
  using assms by (simp add: mpu_set_sample_rate_def i2c_write_byte_def Let_def split_beta)

lemma divider_fits_byte:
  assumes "4 \<le> r" and "r \<le> 1000"
  shows "uint (word_of_int (1000 div r - 1) :: byte) = 1000 div r - 1"
proof -
  have "1000 div r \<le> 1000 div 4" using assms by (intro zdiv_mono2) auto
  moreover have "1000 div 1000 \<le> 1000 div r" using assms by (intro zdiv_mono2) auto
  ultimately have bnd: "0 \<le> 1000 div r - 1 \<and> 1000 div r - 1 < 256" by simp
  have "\<And>k :: int. 0 \<le> k \<and> k < 256 \<Longrightarrow> uint (word_of_int k :: byte) = k"
    by (simp add: uint_word_of_int take_bit_int_eq_self)
  from this [OF bnd] show ?thesis .
qed

lemma ucast_16_8_of_int: "(ucast (word_of_int k :: 16 word) :: byte) = word_of_int k"
  by (rule bit_word_eqI) (auto simp add: bit_simps)

lemma dmp_set_fifo_rate_bus:
  assumes "4 \<le> r" and "r \<le> 1000" and "r \<le> DMP_SAMPLE_RATE D"
  shows "\<exists>evs. bus (snd (dmp_set_fifo_rate D E (word_of_int r) s)) =
           bus s @ WriteByte SMPLRT_DIV (word_of_int (1000 div r - 1)) # evs"
proof -
  have u: "uint (word_of_int r :: 16 word) = r"
    using assms by (simp add: uint_word_of_int take_bit_int_eq_self)
  have nz: "(word_of_int r :: 16 word) \<noteq> 0"
    using u assms by (metis not_numeral_le_zero uint_0_eq)
  show ?thesis
    using assms u nz ucast_16_8_of_int [of "1000 div r - 1", simplified]
    by (simp add: dmp_set_fifo_rate_def i2c_write_byte_def Let_def split_beta
        mpu_write_mem_def i2c_write_bytes_def)
qed

lemma initialize_imu_dmp_rejects:
  assumes "0 < DMP_MIN_RATE D" and "\<not> dmp_sample_rate conf dvd 200"
  shows "(fst (initialize_imu_dmp D E conf s) = ERR RateRange \<or>
          fst (initialize_imu_dmp D E conf s) = ERR RateNotDivisor) \<and>
         ret_code (fst (initialize_imu_dmp D E conf s)) = - 1 \<and>
         bus (snd (initialize_imu_dmp D E conf s)) = bus s \<and>
         frame (snd (initialize_imu_dmp D E conf s)) = frame s"
  using assms
  by (auto simp add: initialize_imu_dmp_def DMP_MAX_RATE_def mod_eq_0_iff_dvd)


text \<open>
  C3 (amended). The claim's divider \<open>200 / r - 1\<close> is not what the driver writes: the sensor's
  clock runs at 1 kHz, and for every rate \<open>r\<close> from 4 to 200 \<open>mpu_set_sample_rate\<close> writes
  \<open>1000 / r - 1\<close> (which fits the byte) to the sample-rate divider register as its one bus
  transaction; \<open>dmp_set_fifo_rate\<close> starts with the same write when \<open>r\<close> is at most
  \<open>DMP_SAMPLE_RATE\<close>. With a positive \<open>DMP_MIN_RATE\<close>, a requested rate that does not
  divide 200 makes the bring-up fail with \<open>-1\<close> while the hardware history is untouched and
  nothing of the driver but the console has changed.
\<close>

theorem C3_rate_divider:
  "(4 \<le> r \<and> r \<le> 200 \<longrightarrow>
      bus (snd (mpu_set_sample_rate E r s)) =
        bus s @ [WriteByte SMPLRT_DIV (word_of_int (1000 div r - 1))] \<and>
      uint (word_of_int (1000 div r - 1) :: byte) = 1000 div r - 1 \<and>
      (r \<le> DMP_SAMPLE_RATE D \<longrightarrow>
        (\<exists>evs. bus (snd (dmp_set_fifo_rate D E (word_of_int r) s)) =
           bus s @ WriteByte SMPLRT_DIV (word_of_int (1000 div r - 1)) # evs))) \<and>
   (0 < DMP_MIN_RATE D \<and> \<not> dmp_sample_rate conf dvd 200 \<longrightarrow>
      (fst (initialize_imu_dmp D E conf s) = ERR RateRange \<or>
       fst (initialize_imu_dmp D E conf s) = ERR RateNotDivisor) \<and>
      ret_code (fst (initialize_imu_dmp D E conf s)) = - 1 \<and>
      bus (snd (initialize_imu_dmp D E conf s)) = bus s \<and>
      frame (snd (initialize_imu_dmp D E conf s)) = frame s)"
proof (intro conjI impI)
  assume r: "4 \<le> r \<and> r \<le> 200"
  then have r': "4 \<le> r" "r \<le> 1000" by simp_all
  show "bus (snd (mpu_set_sample_rate E r s)) =
        bus s @ [WriteByte SMPLRT_DIV (word_of_int (1000 div r - 1))]"
    by (rule mpu_set_sample_rate_bus [OF r'])
  show "uint (word_of_int (1000 div r - 1) :: byte) = 1000 div r - 1"
    by (rule divider_fits_byte [OF r'])
  assume "r \<le> DMP_SAMPLE_RATE D"
  then show "\<exists>evs. bus (snd (dmp_set_fifo_rate D E (word_of_int r) s)) =
           bus s @ WriteByte SMPLRT_DIV (word_of_int (1000 div r - 1)) # evs"
    by (rule dmp_set_fifo_rate_bus [OF r'])
next
  assume a: "0 < DMP_MIN_RATE D \<and> \<not> dmp_sample_rate conf dvd 200"
  then have *: "(fst (initialize_imu_dmp D E conf s) = ERR RateRange \<or>
          fst (initialize_imu_dmp D E conf s) = ERR RateNotDivisor) \<and>
         ret_code (fst (initialize_imu_dmp D E conf s)) = - 1 \<and>
         bus (snd (initialize_imu_dmp D E conf s)) = bus s \<and>
         frame (snd (initialize_imu_dmp D E conf s)) = frame s"
    using initialize_imu_dmp_rejects [of D conf E s] by blast
  from * show "fst (initialize_imu_dmp D E conf s) = ERR RateRange \<or>
       fst (initialize_imu_dmp D E conf s) = ERR RateNotDivisor" by blast
  from * show "ret_code (fst (initialize_imu_dmp D E conf s)) = - 1" by blast
  from * show "bus (snd (initialize_imu_dmp D E conf s)) = bus s" by blast
  from * show "frame (snd (initialize_imu_dmp D E conf s)) = frame s" by blast
qed

theorem C3_rate_divider_witness:
  "bus (snd (mpu_set_sample_rate (example_env 0 []) 100 example_driver)) =
     [WriteByte SMPLRT_DIV 9] \<and>
   fst (initialize_imu_dmp example_defs (example_env 0 [])
          (example_config\<lparr>dmp_sample_rate := 30\<rparr>) example_driver) = ERR RateNotDivisor \<and>
   bus (snd (initialize_imu_dmp example_defs (example_env 0 [])
          (example_config\<lparr>dmp_sample_rate := 30\<rparr>) example_driver)) = []"
proof -
  have h1: "(4 :: int) \<le> 100 \<and> (100 :: int) \<le> 200" by simp
  have h2: "0 < DMP_MIN_RATE example_defs \<and>
            \<not> dmp_sample_rate (example_config\<lparr>dmp_sample_rate := 30\<rparr>) dvd 200"
    by (simp add: example_defs_def)
  have b: "bus example_driver = []" by (simp add: example_driver_def)
  have nr: "fst (initialize_imu_dmp example_defs (example_env 0 [])
          (example_config\<lparr>dmp_sample_rate := 30\<rparr>) example_driver) \<noteq> ERR RateRange"
    by (simp add: initialize_imu_dmp_def example_defs_def DMP_MAX_RATE_def)
  from C3_rate_divider [of 100 "example_env 0 []" example_driver example_defs
      "example_config\<lparr>dmp_sample_rate := 30\<rparr>"] h1 h2 b nr
  show ?thesis by simp
qed

text \<open>The claim as stated fails at the top rate: 200 divides 200 and the claim's divider is
  \<open>200 / 200 - 1 = 0\<close>, but the register receives 4.\<close>

theorem C3_rate_divider_counterexample:
  "bus (snd (mpu_set_sample_rate (example_env 0 []) 200 example_driver)) =
     [WriteByte SMPLRT_DIV 4] \<and>
   (200 :: int) mod 200 = 0 \<and>
   (word_of_int (200 div 200 - 1) :: byte) = 0 \<and> (4 :: byte) \<noteq> 0"
  by (simp add: mpu_set_sample_rate_def i2c_write_byte_def emit_def example_driver_def
      example_env_def Let_def)

section \<open>Fusion without error; bring-up without calibration file\<close>

lemma blend_yaw_zero: "blend_yaw D rate g 0 = g"
  by (simp add: blend_yaw_def)

text \<open>
  C6. In a fusion pass whose compass yaw and gyro-propagated yaw have a wrapped
  difference of zero (the compass yaw equals the gyro-propagated yaw), with
  \<open>YAW_MIX_FACTOR\<close> non-zero and the gyro-propagated yaw \<open>g\<close> in its range 0..2PI, the pass
  succeeds, the blend adds nothing, and the blended yaw kept as the filter's state is \<open>g\<close>
  itself; the fused yaw stored in the sample is that same angle, moved into -PI..PI as the
  source does for every output (lines 1648-1650). In the model's exact arithmetic; with
  floats the added term is \<open>0 * 100 / x\<close>, which is zero for every finite non-zero \<open>x\<close>.
\<close>

theorem C6_fusion_no_correction:
  assumes m: "new_mag_yaw D M s = Some m"
    and g: "gyro_yaw D M s = Some g"
    and mix: "YAW_MIX_FACTOR D \<noteq> 0"
    and zero: "wrap_delta D (m - g) = 0"
    and range: "0 \<le> g \<and> g \<le> TWO_PI D"
    and idx: "TB_YAW_Z D \<noteq> TB_PITCH_X D \<and> TB_YAW_Z D \<noteq> TB_ROLL_Y D"
  shows "fst (data_fusion D M s) = OK \<and>
         blend_yaw D (dmp_sample_rate (config s)) g (wrap_delta D (m - g)) = g \<and>
         lastYaw (snd (data_fusion D M s)) = g \<and>
         fused_TaitBryan (data (snd (data_fusion D M s))) (TB_YAW_Z D) = slide_yaw D g"
proof -
  from range have b: "bound_yaw D g = g" by (simp add: bound_yaw_def)
  from zero have bl: "blend_yaw D (dmp_sample_rate (config s)) g (wrap_delta D (m - g)) = g"
    by (simp add: blend_yaw_zero)
  show ?thesis
    using m g mix idx bl b zero
    by (auto simp add: data_fusion_def new_mag_yaw_def gyro_yaw_def Let_def blend_yaw_zero
        split: option.splits if_splits)
qed

lemmas fusion_simps =
  data_fusion_def new_mag_yaw_def gyro_yaw_def orient_mag_def bound_yaw_def wrap_delta_def
  blend_yaw_def slide_yaw_def ORIENTATION_Z_UP_def QUAT_W_def QUAT_X_def QUAT_Y_def QUAT_Z_def
  example_driver_def example_defs_def example_math_def example_config_def example_data_def
  Let_def

theorem C6_fusion_no_correction_witness:
  "new_mag_yaw example_defs (example_math\<lparr>atan2f := (\<lambda>y x. Some (- 4))\<rparr>) example_driver = Some 4 \<and>
   gyro_yaw example_defs (example_math\<lparr>atan2f := (\<lambda>y x. Some (- 4))\<rparr>) example_driver = Some 4 \<and>
   wrap_delta example_defs (4 - 4) = 0 \<and>
   fst (data_fusion example_defs (example_math\<lparr>atan2f := (\<lambda>y x. Some (- 4))\<rparr>) example_driver) = OK \<and>
   lastYaw (snd (data_fusion example_defs (example_math\<lparr>atan2f := (\<lambda>y x. Some (- 4))\<rparr>)
      example_driver)) = 4 \<and>
   fused_TaitBryan (data (snd (data_fusion example_defs
      (example_math\<lparr>atan2f := (\<lambda>y x. Some (- 4))\<rparr>) example_driver))) 2 = - 258 / 113"
proof -
  let ?M = "example_math\<lparr>atan2f := (\<lambda>y x. Some (- 4))\<rparr>"
  have m: "new_mag_yaw example_defs ?M example_driver = Some 4"
    by (simp add: fusion_simps)
  have g: "gyro_yaw example_defs ?M example_driver = Some 4"
    by (simp add: fusion_simps)
  have mix: "YAW_MIX_FACTOR example_defs \<noteq> 0" by (simp add: example_defs_def)
  have zero: "wrap_delta example_defs (4 - 4) = 0"
    by (simp add: wrap_delta_def example_defs_def)
  have range: "(0 :: real) \<le> 4 \<and> 4 \<le> TWO_PI example_defs" by (simp add: example_defs_def)
  have idx: "TB_YAW_Z example_defs \<noteq> TB_PITCH_X example_defs \<and>
             TB_YAW_Z example_defs \<noteq> TB_ROLL_Y example_defs" by (simp add: example_defs_def)
  have sl: "slide_yaw example_defs 4 = - 258 / 113"
    by (simp add: slide_yaw_def example_defs_def)
  have tb: "TB_YAW_Z example_defs = 2" by (simp add: example_defs_def)
  from C6_fusion_no_correction [OF m g mix zero range idx] m g zero sl tb
  show ?thesis by simp
qed

text \<open>
  C4 (the code fails the claim). The header of \<open>load_gyro_offets\<close> promises that a missing
  calibration file is made anew, and the case only prints a warning. Yet the function then
  returns \<open>-1\<close>, having touched neither the bus nor the bias registers, and
  \<open>initialize_imu_dmp\<close> takes that for a failure: with the gyro calibration file absent the
  bring-up does not succeed, whatever the outside world answers.
\<close>

theorem C4_missing_gyro_cal_fails_bring_up:
  assumes "files s (CONFIG_DIRECTORY D @ GYRO_CAL_FILE D) = None"
  shows "load_gyro_offets D E s =
           (ERR NoCalFile, say ''Please run calibrate_gyro''
                             (say ''WARNING: no gyro calibration data found'' s)) \<and>
         ret_code (fst (load_gyro_offets D E s)) = - 1 \<and>
         bus (snd (load_gyro_offets D E s)) = bus s \<and>
         fst (initialize_imu_dmp D E conf s) \<noteq> OK"
proof -
  have l: "\<And>t. files t = files s \<Longrightarrow> load_gyro_offets D E t =
           (ERR NoCalFile, say ''Please run calibrate_gyro''
                             (say ''WARNING: no gyro calibration data found'' t))"
    using assms by (simp add: load_gyro_offets_def)
  have "fst (initialize_imu_dmp D E conf s) \<noteq> OK"
    by (simp add: initialize_imu_dmp_def Let_def split_beta l ext_def emit_def
        reset_mpu9250_def i2c_read_byte_def say_def split: option.splits)
  with l [of s] show ?thesis by (simp add: say_def)
qed

theorem C4_missing_gyro_cal_fails_bring_up_witness:
  "files example_driver (CONFIG_DIRECTORY example_defs @ GYRO_CAL_FILE example_defs) = None \<and>
   fst (load_gyro_offets example_defs (example_env 0 []) example_driver) = ERR NoCalFile \<and>
   fst (initialize_imu_dmp example_defs (example_env 0 []) example_config example_driver) \<noteq> OK"
proof -
  have h: "files example_driver (CONFIG_DIRECTORY example_defs @ GYRO_CAL_FILE example_defs) = None"
    by (simp add: example_driver_def)
  from C4_missing_gyro_cal_fails_bring_up [OF h, of "example_env 0 []" example_config] h
  show ?thesis by simp
qed

text \<open>The failing run: the rate is valid, the GPIO and bus set-up succeed, the chip identifies
  itself as \<open>0x71\<close>, no calibration file exists, and the bring-up returns \<open>-1\<close> from its
  calibration step.\<close>

theorem C4_missing_gyro_cal_counterexample:
  "files example_driver (CONFIG_DIRECTORY example_defs @ GYRO_CAL_FILE example_defs) = None \<and>
   fst (initialize_imu_dmp example_defs (example_env 0 []) example_config example_driver) =
     ERR (CalleeFailed Load_gyro_offets) \<and>
   ret_code (fst (initialize_imu_dmp example_defs (example_env 0 []) example_config
     example_driver)) = - 1"
  by (simp add: initialize_imu_dmp_def load_gyro_offets_def ext_def emit_def say_def
      reset_mpu9250_def i2c_read_byte_def example_driver_def example_env_def example_defs_def
      example_config_def DMP_MAX_RATE_def Let_def)

section \<open>Firmware loader\<close>

declare dmp_load_loop.simps [simp del]

lemma bank_offset: "unat (ucast (mem_addr AND 0xFF :: 16 word) :: byte) = unat mem_addr mod 256"
proof -
  have m: "(0xFF :: 16 word) = mask 8" by (simp add: mask_eq_decr_exp)
  have "(mem_addr AND 0xFF) = take_bit 8 mem_addr"
    by (simp only: m take_bit_eq_mask)
  then show ?thesis
    by (simp add: unsigned_ucast_eq unsigned_take_bit_eq take_bit_eq_mod unat_mod)
qed

lemma mpu_write_mem_bank_guard:
  assumes "unat mem_addr mod 256 + unat len > MPU6500_BANK_SIZE D"
  shows "fst (mpu_write_mem D E mem_addr len dat s) \<noteq> OK \<and>
         ret_code (fst (mpu_write_mem D E mem_addr len dat s)) = - 1 \<and>
         bus (snd (mpu_write_mem D E mem_addr len dat s)) = bus s"
  using assms
  by (simp add: mpu_write_mem_def bank_offset Let_def say_def split: option.splits)

lemma mpu_read_mem_last:
  assumes "mpu_read_mem D E a n s = (Inr cur, s')"
  shows "bus s' \<noteq> [] \<and> last (bus s') = ReadBytes MPU6500_MEM_R_W (unat n)"
  using assms
  by (auto simp add: mpu_read_mem_def Let_def split_beta i2c_write_bytes_def i2c_read_bytes_def
      emit_def split: if_splits option.splits)

lemma dmp_load_loop_mismatch:
  assumes "ii < DMP_CODE_SIZE D"
    and "mpu_write_mem D E (word_of_nat ii) (word_of_nat (min DMP_LOAD_CHUNK (DMP_CODE_SIZE D - ii)))
           (Some (drop ii (dmp_firmware D))) s = (OK, s1)"
    and "mpu_read_mem D E (word_of_nat ii) (word_of_nat (min DMP_LOAD_CHUNK (DMP_CODE_SIZE D - ii)))
           s1 = (Inr cur, s2)"
    and "take (min DMP_LOAD_CHUNK (DMP_CODE_SIZE D - ii)) (drop ii (dmp_firmware D)) \<noteq>
         take (min DMP_LOAD_CHUNK (DMP_CODE_SIZE D - ii)) cur"
  shows "dmp_load_loop D E ii s = (ERR Corrupted, say ''dmp firmware write corrupted'' s2)"
  using assms by (subst dmp_load_loop.simps) (simp add: Let_def)

lemma dmp_load_loop_corrupted_last:
  "dmp_load_loop D E ii s = (ERR Corrupted, s') \<Longrightarrow>
     bus s' \<noteq> [] \<and> (\<exists>n. last (bus s') = ReadBytes MPU6500_MEM_R_W n)"
proof (induction D E ii s rule: dmp_load_loop.induct)
  case (1 D E ii s)
  let ?tw = "min DMP_LOAD_CHUNK (DMP_CODE_SIZE D - ii)"
  let ?ws = "mpu_write_mem D E (word_of_nat ii) (word_of_nat ?tw) (Some (drop ii (dmp_firmware D))) s"
  let ?rs = "mpu_read_mem D E (word_of_nat ii) (word_of_nat ?tw) (snd ?ws)"
  from "1.prems" have lt: "ii < DMP_CODE_SIZE D"
    by (subst (asm) dmp_load_loop.simps) (auto split: if_splits)
  have wnc: "fst ?ws \<noteq> ERR Corrupted"
    by (simp add: mpu_write_mem_def Let_def split_beta)
  from "1.prems" lt wnc have wok: "fst ?ws = OK"
    by (subst (asm) dmp_load_loop.simps) (auto simp add: Let_def split: if_splits)
  have rnc: "fst ?rs \<noteq> Inl Corrupted"
    by (simp add: mpu_read_mem_def Let_def split_beta split: option.splits)
  from "1.prems" lt wok rnc obtain cur where cur: "fst ?rs = Inr cur"
    by (subst (asm) dmp_load_loop.simps) (auto simp add: Let_def split: if_splits sum.splits)
  then have rs: "mpu_read_mem D E (word_of_nat ii) (word_of_nat ?tw) (snd ?ws) = (Inr cur, snd ?rs)"
    by (metis prod.collapse)
  show ?case
  proof (cases "take ?tw (drop ii (dmp_firmware D)) \<noteq> take ?tw cur")
    case True
    with "1.prems" lt wok cur have "s' = say ''dmp firmware write corrupted'' (snd ?rs)"
      by (subst (asm) dmp_load_loop.simps) (simp add: Let_def)
    with mpu_read_mem_last [OF rs] show ?thesis by auto
  next
    case False
    with "1.prems" lt wok cur have "dmp_load_loop D E (ii + ?tw) (snd ?rs) = (ERR Corrupted, s')"
      by (subst (asm) dmp_load_loop.simps) (simp add: Let_def)
    with "1.IH" [OF lt refl refl _ refl cur] wok False show ?thesis by simp
  qed
qed




section \<open>Sampler task\<close>

lemma callbacks_emit [simp]:
  "callbacks (emit e s) = (if e = UserCallback then Suc (callbacks s) else callbacks s)"
  by (simp add: callbacks_def emit_def)

lemma callbacks_bus: "bus s' = bus s \<Longrightarrow> callbacks s' = callbacks s"
  by (simp add: callbacks_def)

lemma bus_data_fusion [simp]: "bus (snd (data_fusion D M s)) = bus s"
  by (simp add: data_fusion_def Let_def say_def split: option.splits)

lemma flags_data_fusion [simp]:
  "interrupt_running (snd (data_fusion D M s)) = interrupt_running s"
  "shutdown_interrupt_thread (snd (data_fusion D M s)) = shutdown_interrupt_thread s"
  by (simp_all add: data_fusion_def Let_def say_def split: option.splits)

lemma bus_decode_packet [simp]: "bus (snd (decode_packet D M raw i s)) = bus s"
  by (simp add: decode_packet_def parse_mag_def Let_def split_beta say_def warn_def)

lemma flags_decode_packet [simp]:
  "interrupt_running (snd (decode_packet D M raw i s)) = interrupt_running s"
  "shutdown_interrupt_thread (snd (decode_packet D M raw i s)) = shutdown_interrupt_thread s"
  by (simp_all add: decode_packet_def parse_mag_def Let_def split_beta say_def warn_def)



lemma sview_prims [simp]:
  "e \<noteq> UserCallback \<Longrightarrow> sview (emit e s) = sview s"
  "sview (say m s) = sview s"
  "sview (warn m s) = sview s"
  "sview (usleep n s) = sview s"
  "sview (snd (i2c_write_byte E r v s)) = sview s"
  "sview (snd (i2c_read_word E r s)) = sview s"
  "sview (snd (i2c_read_bytes E r n s)) = sview s"
  by (simp_all add: sview_def callbacks_def say_def warn_def usleep_def emit_def
      i2c_write_byte_def i2c_read_word_def i2c_read_bytes_def Let_def)

lemma sview_mpu_reset_fifo [simp]: "sview (snd (mpu_reset_fifo D E s)) = sview s"
  by (simp add: mpu_reset_fifo_def Let_def split_beta)

lemma sview_fifo_count_check [simp]: "sview (snd (fifo_count_check D E s)) = sview s"
  by (simp add: fifo_count_check_def Let_def split_beta split: option.splits)

lemma sview_select_offset [simp]: "sview (snd (select_offset s c)) = sview s"
  by (simp add: select_offset_def)

lemma sview_read_fifo_buffer [simp]: "sview (snd (read_fifo_buffer E c s)) = sview s"
  by (simp add: read_fifo_buffer_def Let_def split_beta split: option.splits)

lemma sview_decode_packet [simp]: "sview (snd (decode_packet D M raw i s)) = sview s"
  by (simp add: sview_def callbacks_bus [OF bus_decode_packet])

lemma sview_read_dmp_fifo [simp]: "sview (snd (read_dmp_fifo D M E s)) = sview s"
proof -
  have 1: "sview (snd (fifo_count_check D E (emit SetDeviceAddress s))) = sview s" by simp
  show ?thesis
    by (simp add: read_dmp_fifo_def Let_def split_beta 1 split: sum.splits)
qed


lemma sview_handler_claim [simp]: "sview (handler_claim E s) = sview s"
  by (simp add: handler_claim_def Let_def sview_def callbacks_def emit_def say_def)

lemma sview_fields:
  "callbacks s = fst (sview s)" "interrupt_running s = fst (snd (sview s))"
  "shutdown_interrupt_thread s = snd (snd (sview s))"
  by (simp_all add: sview_def)

lemma sview_eqD:
  assumes "sview s' = sview s"
  shows "callbacks s' = callbacks s" "interrupt_running s' = interrupt_running s"
    "shutdown_interrupt_thread s' = shutdown_interrupt_thread s"
  using assms by (simp_all add: sview_def)

lemma ret_code_zero: "(ret_code r = 0) = (r = OK)"
  by (cases r rule: ret_code.cases) simp_all

lemma sview_handler_read [simp]: "sview (handler_read D M E s) = sview s"
proof -
  have "sview (snd (read_dmp_fifo D M E s)) = sview s" by simp
  then show ?thesis
    by (simp add: handler_read_def Let_def split_beta sview_def callbacks_def emit_def)
qed

lemma handler_read_last: "last (bus (handler_read D M E s)) = ReleaseBus"
  by (simp add: handler_read_def Let_def split_beta emit_def)

lemma handler_read_flag:
  "last_read_successful (handler_read D M E s) =
     (if fst (read_dmp_fifo D M E s) = OK then 1 else 0)"
  by (simp add: handler_read_def Let_def split_beta emit_def ret_code_zero)

lemma handler_edge_cases:
  "handler_edge D M E fr s =
     (if fr = 1 then (0, handler_read D M E (handler_claim E s))
      else if interrupt_running s \<noteq> 0
           then (fr, emit UserCallback (handler_read D M E (handler_claim E s)))
           else (fr, handler_read D M E (handler_claim E s)))"
proof -
  have "sview (handler_read D M E (handler_claim E s)) = sview s" by simp
  then have "interrupt_running (handler_read D M E (handler_claim E s)) = interrupt_running s"
    by (rule sview_eqD)
  then show ?thesis by (simp add: handler_edge_def Let_def)
qed

lemma handler_loop_callbacks:
  assumes "\<forall>c\<in>set cs. before c = [] \<and> \<not> state_exiting c"
    and "interrupt_running s \<noteq> 0" and "shutdown_interrupt_thread s \<noteq> 1"
  shows "callbacks (handler_loop D M E fr cs s) =
           callbacks s + (if fr = 1 then length (filter pollpri cs) - 1
                          else length (filter pollpri cs))"
  using assms
proof (induction cs arbitrary: fr s)
  case Nil
  then show ?case by simp
next
  case (Cons c cs)
  from Cons.prems have c: "before c = []" "\<not> state_exiting c"
    and rest: "\<forall>c\<in>set cs. before c = [] \<and> \<not> state_exiting c" by simp_all
  let ?s1 = "emit Poll s"
  have sv1: "sview ?s1 = sview s" by simp
  note f1 = sview_eqD [OF sv1]
  show ?case
  proof (cases "pollpri c")
    case False
    have "handler_loop D M E fr (c # cs) s = handler_loop D M E fr cs ?s1"
      using c False Cons.prems(3) by (simp add: Let_def)
    moreover have "callbacks (handler_loop D M E fr cs ?s1) =
        callbacks ?s1 + (if fr = 1 then length (filter pollpri cs) - 1
                          else length (filter pollpri cs))"
      using Cons.IH [OF rest, of ?s1 fr] Cons.prems(2,3) f1 by simp
    ultimately show ?thesis using False f1 by simp
  next
    case True
    obtain fr' s2 where he: "handler_edge D M E fr ?s1 = (fr', s2)"
      by (cases "handler_edge D M E fr ?s1")
    let ?t = "handler_read D M E (handler_claim E ?s1)"
    note hc = handler_edge_cases [of D M E fr ?s1]
    have svt: "sview ?t = sview ?s1" by simp
    have run1: "interrupt_running ?s1 \<noteq> 0" using Cons.prems(2) f1 by simp
    have step: "handler_loop D M E fr (c # cs) s = handler_loop D M E fr' cs s2"
      using c True Cons.prems(3) he by (simp add: Let_def)
    show ?thesis
    proof (cases "fr = 1")
      case fr1: True
      from hc he fr1 have e: "fr' = 0" "sview s2 = sview ?s1"
        using svt by auto
      note f2 = sview_eqD [OF e(2)]
      have "callbacks (handler_loop D M E fr' cs s2) =
          callbacks s2 + (if fr' = 1 then length (filter pollpri cs) - 1
                          else length (filter pollpri cs))"
        using Cons.IH [OF rest, of s2 fr'] Cons.prems(2,3) f1 f2 by simp
      with step e f1 f2 fr1 True show ?thesis by simp
    next
      case frn: False
      from hc he frn run1 obtain t where t: "fr' = fr" "s2 = emit UserCallback t"
        "sview t = sview ?s1"
        using svt by auto
      note f2 = sview_eqD [OF t(3)]
      have cb2: "callbacks s2 = Suc (callbacks s)" using t f1 f2 by simp
      have fl2: "interrupt_running s2 \<noteq> 0" "shutdown_interrupt_thread s2 \<noteq> 1"
        using t f1 f2 Cons.prems(2,3) by (simp_all add: emit_def)
      have "callbacks (handler_loop D M E fr' cs s2) =
          callbacks s2 + (if fr' = 1 then length (filter pollpri cs) - 1
                          else length (filter pollpri cs))"
        using Cons.IH [OF rest fl2, of fr'] .
      with step t(1) cb2 frn True show ?thesis by simp
    qed
  qed
qed


lemma fields_handler_read [simp]:
  "callbacks (handler_read D M E s) = callbacks s"
  "interrupt_running (handler_read D M E s) = interrupt_running s"
  "shutdown_interrupt_thread (handler_read D M E s) = shutdown_interrupt_thread s"
  using sview_eqD [OF sview_handler_read [of D M E s]] by simp_all

lemma fields_handler_claim [simp]:
  "callbacks (handler_claim E s) = callbacks s"
  "interrupt_running (handler_claim E s) = interrupt_running s"
  "shutdown_interrupt_thread (handler_claim E s) = shutdown_interrupt_thread s"
  using sview_eqD [OF sview_handler_claim [of E s]] by simp_all

text \<open>
  C7 (amended). In the sampler task the first received edge never invokes the user
  callback. Every later edge invokes it exactly once, after the FIFO read and the release of
  the bus and before the task waits again, as long as \<open>interrupt_running\<close> is set at that
  moment: after \<open>stop_imu_interrupt_func\<close> the edge is served without a callback. So a task
  that is never stopped and whose callback is never stopped makes one callback less than it
  has received edges. On every edge, whether its decode failed or not, the last-read-success
  flag records the outcome of the read.
\<close>

theorem C7_callback_per_edge:
  "((\<forall>c\<in>set cs. before c = [] \<and> \<not> state_exiting c) \<and> interrupt_running s \<noteq> 0 \<and>
      shutdown_interrupt_thread s \<noteq> 1 \<longrightarrow>
      callbacks (handler_loop D M E 1 cs s) = callbacks s + (length (filter pollpri cs) - 1)) \<and>
   handler_edge D M E 1 s = (0, handler_read D M E (handler_claim E s)) \<and>
   callbacks (handler_read D M E (handler_claim E s)) = callbacks s \<and>
   (fr \<noteq> 1 \<and> interrupt_running s \<noteq> 0 \<longrightarrow>
      handler_edge D M E fr s = (fr, emit UserCallback (handler_read D M E (handler_claim E s)))) \<and>
   (fr \<noteq> 1 \<and> interrupt_running s = 0 \<longrightarrow>
      handler_edge D M E fr s = (fr, handler_read D M E (handler_claim E s))) \<and>
   last (bus (handler_read D M E (handler_claim E s))) = ReleaseBus \<and>
   last_read_successful (handler_read D M E (handler_claim E s)) =
     (if fst (read_dmp_fifo D M E (handler_claim E s)) = OK then 1 else 0)"
proof (intro conjI impI)
  assume "(\<forall>c\<in>set cs. before c = [] \<and> \<not> state_exiting c) \<and> interrupt_running s \<noteq> 0 \<and>
      shutdown_interrupt_thread s \<noteq> 1"
  then show "callbacks (handler_loop D M E 1 cs s) =
      callbacks s + (length (filter pollpri cs) - 1)"
    using handler_loop_callbacks [of cs s D M E 1] by simp
next
  show "handler_edge D M E 1 s = (0, handler_read D M E (handler_claim E s))"
    by (simp add: handler_edge_cases)
  show "callbacks (handler_read D M E (handler_claim E s)) = callbacks s" by simp
  show "last (bus (handler_read D M E (handler_claim E s))) = ReleaseBus"
    by (rule handler_read_last)
  show "last_read_successful (handler_read D M E (handler_claim E s)) =
     (if fst (read_dmp_fifo D M E (handler_claim E s)) = OK then 1 else 0)"
    by (rule handler_read_flag)
next
  assume "fr \<noteq> 1 \<and> interrupt_running s \<noteq> 0"
  then show "handler_edge D M E fr s =
      (fr, emit UserCallback (handler_read D M E (handler_claim E s)))"
    by (simp add: handler_edge_cases)
next
  assume "fr \<noteq> 1 \<and> interrupt_running s = 0"
  then show "handler_edge D M E fr s = (fr, handler_read D M E (handler_claim E s))"
    by (simp add: handler_edge_cases)
qed

theorem C7_callback_per_edge_witness:
  "callbacks (handler_loop example_defs example_math (example_env 28 example_good_packet) 1
     [\<lparr>before = [], state_exiting = False, pollpri = True\<rparr>,
      \<lparr>before = [], state_exiting = False, pollpri = False\<rparr>,
      \<lparr>before = [], state_exiting = False, pollpri = True\<rparr>,
      \<lparr>before = [], state_exiting = False, pollpri = True\<rparr>] example_driver) = 2 \<and>
   handler_edge example_defs example_math (example_env 28 example_good_packet) 0 example_driver =
     (0, emit UserCallback (handler_read example_defs example_math
        (example_env 28 example_good_packet)
        (handler_claim (example_env 28 example_good_packet) example_driver)))"
proof -
  let ?cs = "[\<lparr>before = [], state_exiting = False, pollpri = True\<rparr>,
      \<lparr>before = [], state_exiting = False, pollpri = False\<rparr>,
      \<lparr>before = [], state_exiting = False, pollpri = True\<rparr>,
      \<lparr>before = [], state_exiting = False, pollpri = True\<rparr>]"
  have h: "(\<forall>c\<in>set ?cs. before c = [] \<and> \<not> state_exiting c) \<and>
      interrupt_running example_driver \<noteq> 0 \<and> shutdown_interrupt_thread example_driver \<noteq> 1"
    by (simp add: example_driver_def)
  have c0: "callbacks example_driver = 0" by (simp add: callbacks_def example_driver_def)
  have h2: "(0 :: int) \<noteq> 1 \<and> interrupt_running example_driver \<noteq> 0"
    by (simp add: example_driver_def)
  note inst = C7_callback_per_edge [of ?cs example_driver example_defs example_math
      "example_env 28 example_good_packet" 0]
  have n: "length (filter pollpri ?cs) - 1 = 2" by simp
  from inst h have "callbacks (handler_loop example_defs example_math
      (example_env 28 example_good_packet) 1 ?cs example_driver) =
      callbacks example_driver + (length (filter pollpri ?cs) - 1)"
    by blast
  then have 1: "callbacks (handler_loop example_defs example_math
      (example_env 28 example_good_packet) 1 ?cs example_driver) = 2"
    by (simp only: n c0 add_0)
  from inst h2 have 2: "handler_edge example_defs example_math
      (example_env 28 example_good_packet) 0 example_driver =
     (0, emit UserCallback (handler_read example_defs example_math
        (example_env 28 example_good_packet)
        (handler_claim (example_env 28 example_good_packet) example_driver)))"
    by blast
  from 1 2 show ?thesis by (rule conjI)
qed

text \<open>The claim as stated fails once the callback has been stopped: of two edges, the second
  one arriving after \<open>stop_imu_interrupt_func\<close>, neither invokes the callback.\<close>

theorem C7_callback_per_edge_counterexample:
  "callbacks (handler_loop example_defs example_math (example_env 28 example_good_packet) 1
     [\<lparr>before = [], state_exiting = False, pollpri = True\<rparr>,
      \<lparr>before = [Stop_func], state_exiting = False, pollpri = True\<rparr>] example_driver) = 0 \<and>
   length (filter pollpri
     [\<lparr>before = [], state_exiting = False, pollpri = True\<rparr>,
      \<lparr>before = [Stop_func], state_exiting = False, pollpri = True\<rparr>]) = 2"
proof -
  have c0: "callbacks example_driver = 0" by (simp add: callbacks_def example_driver_def)
  have sh: "shutdown_interrupt_thread example_driver = 0" by (simp add: example_driver_def)
  have st: "\<And>s. callbacks (stop_imu_interrupt_func s) = callbacks s \<and>
      interrupt_running (stop_imu_interrupt_func s) = 0 \<and>
      shutdown_interrupt_thread (stop_imu_interrupt_func s) = shutdown_interrupt_thread s"
    by (simp add: stop_imu_interrupt_func_def callbacks_def)
  have em: "\<And>e s. interrupt_running (emit e s) = interrupt_running s \<and>
      shutdown_interrupt_thread (emit e s) = shutdown_interrupt_thread s"
    by (simp add: emit_def)
  show ?thesis
    by (simp add: Let_def handler_edge_cases st em c0 sh)
qed

section \<open>Floats: rounding to the nearest value\<close>

lemma round_half_even_close: "\<bar>real_of_int (round_half_even y) - y\<bar> \<le> 1 / 2"
proof -
  have "real_of_int \<lfloor>y\<rfloor> \<le> y" and "y < real_of_int \<lfloor>y\<rfloor> + 1" by linarith+
  then show ?thesis by (auto simp add: round_half_even_def Let_def)
qed

lemma round_half_even_nonneg: "0 \<le> y \<Longrightarrow> 0 \<le> round_half_even y"
proof -
  assume "0 \<le> y"
  then have "0 \<le> \<lfloor>y\<rfloor>" by simp
  then show ?thesis by (auto simp add: round_half_even_def Let_def)
qed

lemma round_half_even_int [simp]: "round_half_even (real_of_int k) = k"
  by (simp add: round_half_even_def)

lemma round_half_even_nearest:
  "\<bar>real_of_int (round_half_even y) - y\<bar> \<le> \<bar>real_of_int k - y\<bar>"
proof (rule ccontr)
  assume "\<not> ?thesis"
  then have lt: "\<bar>real_of_int k - y\<bar> < \<bar>real_of_int (round_half_even y) - y\<bar>" by simp
  with round_half_even_close [of y] have "\<bar>real_of_int k - y\<bar> < 1 / 2" by linarith
  with round_half_even_close [of y]
  have "\<bar>real_of_int k - real_of_int (round_half_even y)\<bar> < 1" by linarith
  then have "\<bar>k - round_half_even y\<bar> < 1" by (metis of_int_diff of_int_abs of_int_less_1_iff)
  then have "k = round_half_even y" by linarith
  with lt show False by simp
qed

lemma exp_search_ge: "e \<le> exp_search n e m"
proof (induction n arbitrary: e)
  case 0
  show ?case by simp
next
  case (Suc n)
  from Suc [of "e + 1"] show ?case by simp
qed

lemma exp_search_le: "exp_search n e m \<le> e + int n"
proof (induction n arbitrary: e)
  case 0
  show ?case by simp
next
  case (Suc n)
  from Suc [of "e + 1"] show ?case by simp
qed

lemma exp_search_lower: "e < exp_search n e m \<Longrightarrow> 2 powi (exp_search n e m) \<le> m"
proof (induction n arbitrary: e)
  case 0
  then show ?case by simp
next
  case (Suc n)
  show ?case
  proof (cases "2 powi (e + 1) \<le> m")
    case True
    show ?thesis
    proof (cases "e + 1 < exp_search n (e + 1) m")
      case True
      from Suc.IH [OF this] \<open>2 powi (e + 1) \<le> m\<close> show ?thesis by simp
    next
      case False
      with exp_search_ge [of "e + 1" n m] have "exp_search n (e + 1) m = e + 1" by simp
      with True show ?thesis by simp
    qed
  next
    case False
    with Suc.prems show ?thesis by simp
  qed
qed

lemma exp_search_upper: "exp_search n e m < e + int n \<Longrightarrow> m < 2 powi (exp_search n e m + 1)"
proof (induction n arbitrary: e)
  case 0
  then show ?case by simp
next
  case (Suc n)
  show ?case
  proof (cases "2 powi (e + 1) \<le> m")
    case True
    with Suc.prems have "exp_search n (e + 1) m < (e + 1) + int n" by simp
    from Suc.IH [OF this] True show ?thesis by simp
  next
    case False
    then show ?thesis by simp
  qed
qed

lemma fp_exponent_range:
  assumes "emin \<le> emax"
  shows "emin \<le> fp_exponent emin emax m" and "fp_exponent emin emax m \<le> emax"
  using exp_search_ge [of emin "nat (emax - emin)" m]
    exp_search_le [of "nat (emax - emin)" emin m] assms
  by (simp_all add: fp_exponent_def)

lemma fp_exponent_lower:
  "emin < fp_exponent emin emax m \<Longrightarrow> 2 powi (fp_exponent emin emax m) \<le> m"
  unfolding fp_exponent_def by (rule exp_search_lower)

lemma fp_exponent_upper:
  assumes "emin \<le> emax" and "fp_exponent emin emax m < emax"
  shows "m < 2 powi (fp_exponent emin emax m + 1)"
  using assms exp_search_upper [of "nat (emax - emin)" emin m]
  by (simp add: fp_exponent_def)

lemma two_powi_pos [simp]: "(0 :: real) < 2 powi k"
  by (simp add: zero_less_power_int)

lemma two_powi_split: "(2 :: real) powi (a + int n) = 2 powi a * 2 ^ n"
  by (simp add: power_int_add)

lemma two_powi_mono: "a \<le> b \<Longrightarrow> (2 :: real) powi a \<le> 2 powi b"
  by (rule power_int_increasing) simp_all

lemma abs_scale:
  assumes u: "(0 :: real) < u"
  shows "\<bar>a * u - m\<bar> = \<bar>a - m / u\<bar> * u"
proof -
  have "a * u - m = (a - m / u) * u" using u by (simp add: field_simps)
  then have "\<bar>a * u - m\<bar> = \<bar>a - m / u\<bar> * \<bar>u\<bar>" by (simp only: abs_mult)
  with u show ?thesis by simp
qed

lemma round_multiple_nearest:
  assumes u: "(0 :: real) < u"
  shows "\<bar>real_of_int (round_half_even (m / u)) * u - m\<bar> \<le> \<bar>real_of_int k * u - m\<bar>"
proof -
  have "\<bar>real_of_int (round_half_even (m / u)) * u - m\<bar> =
          \<bar>real_of_int (round_half_even (m / u)) - m / u\<bar> * u"
    by (rule abs_scale [OF u])
  also have "\<dots> \<le> \<bar>real_of_int k - m / u\<bar> * u"
    using u round_half_even_nearest [of "m / u" k] by (simp add: mult_right_mono)
  also have "\<dots> = \<bar>real_of_int k * u - m\<bar>"
    by (rule abs_scale [OF u, symmetric])
  finally show ?thesis .
qed

lemma round_multiple_close:
  assumes u: "(0 :: real) < u"
  shows "\<bar>real_of_int (round_half_even (m / u)) * u - m\<bar> \<le> u / 2"
proof -
  have "\<bar>real_of_int (round_half_even (m / u)) * u - m\<bar> =
          \<bar>real_of_int (round_half_even (m / u)) - m / u\<bar> * u"
    by (rule abs_scale [OF u])
  also have "\<dots> \<le> (1 / 2) * u"
    using u round_half_even_close [of "m / u"] by (simp add: mult_right_mono)
  finally show ?thesis by simp
qed

lemma fp_round_mag_close:
  "\<bar>fp_round_mag p emin emax m - m\<bar> \<le> 2 powi (fp_exponent emin emax m - int p + 1) / 2"
  unfolding fp_round_mag_def Let_def by (rule round_multiple_close) simp

lemma fp_round_mag_nearest:
  assumes mm: "emin \<le> emax" and p: "1 \<le> p"
    and x: "fp_round_mag p emin emax x = x"
  shows "\<bar>fp_round_mag p emin emax y - y\<bar> \<le> \<bar>x - y\<bar>"
proof -
  define e where "e = fp_exponent emin emax y"
  define ex where "ex = fp_exponent emin emax x"
  define u where "u = (2 :: real) powi (e - int p + 1)"
  have u0: "0 < u" by (simp add: u_def)
  have z: "fp_round_mag p emin emax y = real_of_int (round_half_even (y / u)) * u"
    by (simp add: fp_round_mag_def e_def u_def Let_def)
  show ?thesis
  proof (cases "e \<le> ex")
    case True
    define kx where "kx = round_half_even (x / 2 powi (ex - int p + 1))"
    have ee: "ex - int p + 1 = (e - int p + 1) + int (nat (ex - e))" using True by simp
    have ux: "2 powi (ex - int p + 1) = u * 2 ^ nat (ex - e)"
      unfolding u_def by (subst ee) (rule two_powi_split)
    from x have "x = real_of_int kx * (u * 2 ^ nat (ex - e))"
      by (simp add: fp_round_mag_def ex_def [symmetric] kx_def [symmetric] ux [symmetric])
    then have "x = real_of_int (kx * 2 ^ nat (ex - e)) * u" by simp
    with round_multiple_nearest [OF u0, of y "kx * 2 ^ nat (ex - e)"] z
    show ?thesis by simp
  next
    case False
    then have lt: "ex < e" by simp
    from fp_exponent_range [OF mm, of x] have "emin \<le> ex" by (simp add: ex_def)
    with lt have "emin < e" by simp
    then have ly: "2 powi e \<le> y" unfolding e_def by (rule fp_exponent_lower)
    from fp_exponent_range [OF mm, of y] lt have "ex < emax" by (simp add: e_def)
    then have "x < 2 powi (ex + 1)"
      unfolding ex_def using fp_exponent_upper [OF mm] by simp
    also have "\<dots> \<le> 2 powi e" using lt by (intro two_powi_mono) simp
    finally have xe: "x < 2 powi e" .
    have ee: "e = (e - int p + 1) + int (p - 1)" using p by (simp add: of_nat_diff)
    have "(2 :: real) powi e = u * 2 ^ (p - 1)"
      unfolding u_def by (subst ee) (rule two_powi_split)
    then have "(2 :: real) powi e = real_of_int (2 ^ (p - 1)) * u" by simp
    with round_multiple_nearest [OF u0, of y "2 ^ (p - 1)"] z
    have "\<bar>fp_round_mag p emin emax y - y\<bar> \<le> \<bar>2 powi e - y\<bar>" by simp
    with ly xe show ?thesis by linarith
  qed
qed

lemma fp_exponent_le:
  assumes "emin \<le> k" and "m < 2 powi (k + 1)"
  shows "fp_exponent emin emax m \<le> k"
proof (rule ccontr)
  assume "\<not> ?thesis"
  then have gt: "k < fp_exponent emin emax m" by simp
  with assms(1) have "emin < fp_exponent emin emax m" by simp
  then have "2 powi (fp_exponent emin emax m) \<le> m" by (rule fp_exponent_lower)
  moreover have "(2 :: real) powi (k + 1) \<le> 2 powi (fp_exponent emin emax m)"
    using gt by (intro two_powi_mono) simp
  ultimately show False using assms(2) by linarith
qed

lemma fp_exponent_eq:
  assumes mm: "emin \<le> emax" and e: "emin \<le> e" "e \<le> emax"
    and lo: "e = emin \<or> 2 powi e \<le> m"
    and hi: "e = emax \<or> m < 2 powi (e + 1)"
  shows "fp_exponent emin emax m = e"
proof -
  define e' where "e' = fp_exponent emin emax m"
  from fp_exponent_range [OF mm, of m] have r: "emin \<le> e'" "e' \<le> emax" by (simp_all add: e'_def)
  have "\<not> e' < e"
  proof
    assume lt: "e' < e"
    with e have "e' < emax" by simp
    then have "m < 2 powi (e' + 1)" unfolding e'_def using fp_exponent_upper [OF mm] by simp
    also have "\<dots> \<le> 2 powi e" using lt by (intro two_powi_mono) simp
    finally have "m < 2 powi e" .
    moreover from lt r have "e \<noteq> emin" by simp
    ultimately show False using lo by simp
  qed
  moreover have "\<not> e < e'"
  proof
    assume lt: "e < e'"
    with r have "e \<noteq> emax" by simp
    with hi have "m < 2 powi (e + 1)" by simp
    with e(1) have "e' \<le> e" unfolding e'_def by (rule fp_exponent_le)
    with lt show False by simp
  qed
  ultimately show ?thesis by (simp add: e'_def)
qed

lemma fp_round_mag_exact:
  assumes mm: "emin \<le> emax" and e: "emin \<le> e" "e \<le> emax"
    and lo: "e = emin \<or> 2 powi e \<le> m"
    and hi: "e = emax \<or> m < 2 powi (e + 1)"
    and k: "m = real_of_int k * 2 powi (e - int p + 1)"
  shows "fp_round_mag p emin emax m = m"
proof -
  have "fp_exponent emin emax m = e" by (rule fp_exponent_eq [OF mm e lo hi])
  then have "fp_round_mag p emin emax m =
      real_of_int (round_half_even (m / 2 powi (e - int p + 1))) * 2 powi (e - int p + 1)"
    by (simp add: fp_round_mag_def Let_def)
  also have "m / 2 powi (e - int p + 1) = real_of_int k" by (simp add: k)
  finally show ?thesis by (simp add: k)
qed

lemma fp_round_mag_fixed_bound:
  assumes mm: "emin \<le> emax" and p: "1 \<le> p"
    and x: "fp_round_mag p emin emax x = x"
    and b: "x < 2 powi (emax + 1)"
  shows "x \<le> 2 powi (emax + 1) - 2 powi (emax - int p + 1)"
proof -
  define e where "e = fp_exponent emin emax x"
  define u where "u = (2 :: real) powi (emax - int p + 1)"
  have u0: "0 < u" by (simp add: u_def)
  have ee: "emax + 1 = (emax - int p + 1) + int p" by simp
  have top: "(2 :: real) powi (emax + 1) = u * 2 ^ p"
    unfolding u_def by (subst ee) (rule two_powi_split)
  show ?thesis
  proof (cases "e < emax")
    case True
    then have "x < 2 powi (e + 1)" unfolding e_def using fp_exponent_upper [OF mm] by simp
    also have "\<dots> \<le> 2 powi emax" using True by (intro two_powi_mono) simp
    finally have "x < 2 powi emax" .
    moreover have "u \<le> 2 powi emax"
      unfolding u_def using p by (intro two_powi_mono) simp
    moreover have "(2 :: real) powi (emax + 1) = 2 powi emax * 2"
      by (simp add: power_int_add)
    ultimately show ?thesis unfolding u_def [symmetric] by linarith
  next
    case False
    with fp_exponent_range [OF mm, of x] have "e = emax" by (simp add: e_def)
    define k where "k = round_half_even (x / u)"
    from x \<open>e = emax\<close> have xk: "x = real_of_int k * u"
      by (simp add: fp_round_mag_def Let_def e_def [symmetric] u_def k_def)
    with b top have "real_of_int k * u < 2 ^ p * u" by (simp add: mult.commute)
    with u0 have "real_of_int k < 2 ^ p" by simp
    then have "real_of_int k < real_of_int (2 ^ p)" by simp
    then have "k < 2 ^ p" by (simp only: of_int_less_iff)
    then have "k \<le> 2 ^ p - 1" by simp
    then have "real_of_int k \<le> real_of_int (2 ^ p - 1)" by (simp only: of_int_le_iff)
    then have "real_of_int k \<le> 2 ^ p - 1" by simp
    with u0 have "real_of_int k * u \<le> (2 ^ p - 1) * u" by (simp only: mult_right_mono less_imp_le)
    with xk top show ?thesis unfolding u_def [symmetric] by (simp add: algebra_simps)
  qed
qed

lemma to_float_Finite:
  "to_float neg m = Finite neg' z \<longleftrightarrow>
     neg' = neg \<and> z = fp_round_mag 24 (- 126) 127 m \<and> fp_round_mag 24 (- 126) 127 m < 2 ^ 128"
  by (auto simp add: to_float_def fp_round_def Let_def)

lemma to_double_Finite:
  "to_double neg m = Finite neg' z \<longleftrightarrow>
     neg' = neg \<and> z = fp_round_mag 53 (- 1022) 1023 m \<and>
     fp_round_mag 53 (- 1022) 1023 m < 2 ^ 1024"
  by (auto simp add: to_double_def fp_round_def Let_def)

text \<open>A float that is printed to within half a unit of the sixth decimal and read again is
  off by at most one unit of the sixth decimal.\<close>

lemma to_float_reread:
  assumes f: "to_float neg m = Finite neg m"
    and v: "\<bar>v - m\<bar> \<le> 1 / 2000000"
  shows "\<exists>z. to_float neg v = Finite neg z \<and> \<bar>z - m\<bar> \<le> 1 / 1000000"
proof -
  from f have x: "fp_round_mag 24 (- 126) 127 m = m" and b: "m < 2 powi (127 + 1)"
    by (simp_all add: to_float_Finite)
  define z where "z = fp_round_mag 24 (- 126) 127 v"
  have "\<bar>z - v\<bar> \<le> \<bar>m - v\<bar>"
    unfolding z_def by (rule fp_round_mag_nearest [OF _ _ x]) simp_all
  with v have c: "\<bar>z - m\<bar> \<le> 1 / 1000000" by linarith
  have "m \<le> 2 powi (127 + 1) - 2 powi (127 - int 24 + 1)"
    by (rule fp_round_mag_fixed_bound [OF _ _ x b]) simp_all
  then have "m + 1 < 2 ^ 128" by simp
  moreover from c have "z \<le> m + 1" by linarith
  ultimately have "z < 2 ^ 128" by linarith
  then have "to_float neg v = Finite neg z" by (simp add: to_float_Finite z_def)
  with c show ?thesis by blast
qed

text \<open>The scale factor computed for a length within bounds.\<close>

lemma scale_70_close:
  assumes l: "5 \<le> l" "l \<le> 140"
  shows "\<exists>z. double_to_float (double_div 70 (Finite False l)) = Finite False z \<and>
             \<bar>z - 70 / l\<bar> \<le> 1 / 2 ^ 20"
proof -
  define q where "q = 70 / l"
  from l have q: "1 / 2 \<le> q" "q \<le> 14" by (simp_all add: q_def field_simps)
  define d where "d = fp_round_mag 53 (- 1022) 1023 q"
  have "fp_exponent (- 1022) 1023 q \<le> 3"
    using q by (intro fp_exponent_le) simp_all
  then have "(2 :: real) powi (fp_exponent (- 1022) 1023 q - int 53 + 1) \<le> 2 powi (3 - int 53 + 1)"
    by (intro two_powi_mono) simp
  with fp_round_mag_close [of 53 "- 1022" 1023 q]
  have dq: "\<bar>d - q\<bar> \<le> 1 / 2 ^ 50" by (simp add: d_def power_int_minus field_simps)
  have "(1 :: real) / 2 ^ 50 \<le> 1" by simp
  with dq q have d16: "d < 16" by linarith
  have "(16 :: real) < 2 ^ 1024" by simp
  with d16 have d0: "d < 2 ^ 1024" by linarith
  then have td: "to_double False q = Finite False d" by (simp add: to_double_Finite d_def)
  define z where "z = fp_round_mag 24 (- 126) 127 d"
  have "fp_exponent (- 126) 127 d \<le> 3"
    using d16 by (intro fp_exponent_le) simp_all
  then have "(2 :: real) powi (fp_exponent (- 126) 127 d - int 24 + 1) \<le> 2 powi (3 - int 24 + 1)"
    by (intro two_powi_mono) simp
  with fp_round_mag_close [of 24 "- 126" 127 d]
  have zd: "\<bar>z - d\<bar> \<le> 1 / 2 ^ 21" by (simp add: z_def power_int_minus field_simps)
  have "(1 :: real) / 2 ^ 21 \<le> 1" by simp
  with zd d16 have "z < 17" by linarith
  moreover have "(17 :: real) < 2 ^ 128" by simp
  ultimately have "z < 2 ^ 128" by linarith
  then have tz: "to_float False d = Finite False z" by (simp add: to_float_Finite z_def)
  from l have "l \<noteq> 0" by simp
  with td tz have "double_to_float (double_div 70 (Finite False l)) = Finite False z"
    by (simp add: double_to_float_def double_div_def q_def)
  moreover have "(1 :: real) / 2 ^ 21 + 1 / 2 ^ 50 \<le> 1 / 2 ^ 20" by simp
  with zd dq have "\<bar>z - q\<bar> \<le> 1 / 2 ^ 20" by linarith
  ultimately show ?thesis by (auto simp add: q_def)
qed

section \<open>Calibration store: what is written is what is read\<close>

lemma is_digit_char_of: "(n :: nat) < 10 \<Longrightarrow> is_digit (char_of (48 + n))"
  by (simp add: is_digit_def of_char_of)

lemma digit_val_char_of: "(n :: nat) < 10 \<Longrightarrow> (of_char (char_of (48 + n)) :: nat) - 48 = n"
  by (simp add: of_char_of)

lemma show_nat_digits: "c \<in> set (show_nat n) \<Longrightarrow> is_digit c"
proof (induction n rule: show_nat.induct)
  case (1 n)
  show ?case
  proof (cases "n < 10")
    case True
    with "1.prems" show ?thesis
      by (subst (asm) show_nat.simps) (simp add: is_digit_char_of)
  next
    case False
    with "1.prems" have "c \<in> set (show_nat (n div 10)) \<or> c = char_of (48 + n mod 10)"
      by (subst (asm) show_nat.simps) auto
    with "1.IH" [OF False] show ?thesis
      by (auto simp add: is_digit_char_of)
  qed
qed

lemma show_nat_nonempty: "show_nat n \<noteq> []"
  by (subst show_nat.simps) simp

lemma digits_val_snoc:
  "digits_val (ds @ [c]) = 10 * digits_val ds + ((of_char c :: nat) - 48)"
  by (simp add: digits_val_def)

lemma digits_val_show_nat: "digits_val (show_nat n) = n"
proof (induction n rule: show_nat.induct)
  case (1 n)
  show ?case
  proof (cases "n < 10")
    case True
    then show ?thesis
      by (subst show_nat.simps) (simp add: digits_val_def of_char_of)
  next
    case False
    have "digits_val (show_nat n) =
        10 * digits_val (show_nat (n div 10)) + ((of_char (char_of (48 + n mod 10)) :: nat) - 48)"
      using False by (subst show_nat.simps) (simp add: digits_val_snoc)
    also have "\<dots> = 10 * (n div 10) + n mod 10"
      using "1.IH" [OF False] by (simp add: digit_val_char_of)
    finally show ?thesis by simp
  qed
qed

lemma not_digit_misc:
  "\<not> is_digit (CHR 0x0A)" "\<not> is_digit CHR ''-''" "\<not> is_digit CHR ''.''"
  "\<not> is_space CHR ''-''"
  by (simp_all add: is_digit_def is_space_def)

lemma digit_not_misc:
  assumes "is_digit c"
  shows "\<not> is_space c" "c \<noteq> CHR ''-''" "c \<noteq> CHR ''+''" "c \<noteq> CHR ''.''"
  using assms by (auto simp add: is_digit_def is_space_def)

lemma take_digits:
  assumes "\<And>c. c \<in> set ds \<Longrightarrow> is_digit c" and "\<not> is_digit x"
  shows "takeWhile is_digit (ds @ x # r) = ds" and "dropWhile is_digit (ds @ x # r) = x # r"
  using assms by (simp_all add: takeWhile_append2 dropWhile_append2)

lemma take_digits_end:
  assumes "\<And>c. c \<in> set ds \<Longrightarrow> is_digit c"
  shows "takeWhile is_digit ds = ds" and "dropWhile is_digit ds = []"
  using assms by (simp_all add: takeWhile_eq_all_conv)

lemma scan_digits_start:
  assumes "ds \<noteq> []" and "\<And>c. c \<in> set ds \<Longrightarrow> is_digit c"
  shows "dropWhile is_space (ds @ r) = ds @ r" and "scan_sign (ds @ r) = (False, ds @ r)"
proof -
  from assms obtain c cs where ds: "ds = c # cs" and d: "is_digit c"
    by (cases ds) auto
  from d show "dropWhile is_space (ds @ r) = ds @ r"
    by (simp add: ds digit_not_misc)
  from d show "scan_sign (ds @ r) = (False, ds @ r)"
    by (simp add: ds scan_sign_def digit_not_misc)
qed

lemma show_nat_start:
  "dropWhile is_space (show_nat n @ r) = show_nat n @ r"
  "scan_sign (show_nat n @ r) = (False, show_nat n @ r)"
  by (rule scan_digits_start [OF show_nat_nonempty show_nat_digits], assumption)+

lemma show_nat_take:
  assumes "\<not> is_digit x"
  shows "takeWhile is_digit (show_nat n @ x # r) = show_nat n"
    and "dropWhile is_digit (show_nat n @ x # r) = x # r"
  by (rule take_digits [OF show_nat_digits assms], assumption)+

lemma scanf_d_nat:
  assumes "\<not> is_digit x"
  shows "scanf_d (show_nat n @ x # r) = Some (int n, x # r)"
  by (simp add: scanf_d_def show_nat_start show_nat_take [OF assms] show_nat_nonempty
      digits_val_show_nat)

lemma scanf_d_printf_d:
  assumes "\<not> is_digit x"
  shows "scanf_d (printf_d i @ x # r) = Some (i, x # r)"
proof (cases "i < 0")
  case False
  then show ?thesis using scanf_d_nat [OF assms, of "nat i" r] by (simp add: printf_d_def)
next
  case True
  have "scanf_d (CHR ''-'' # show_nat (nat (- i)) @ x # r) = Some (- int (nat (- i)), x # r)"
    by (simp add: scanf_d_def scan_sign_def not_digit_misc show_nat_nonempty
        digits_val_show_nat show_nat_take [OF assms])
  with True show ?thesis by (simp add: printf_d_def)
qed

lemma scanf_d_newline: "scanf_d (CHR 0x0A # t) = scanf_d t"
  by (simp add: scanf_d_def is_space_def)

lemma fscanf_gyro_cal_text:
  "fscanf_ints 3 (gyro_cal_text offsets) =
     [sint (offsets 0), sint (offsets 1), sint (offsets 2)]"
proof -
  have 3: "fscanf_ints 3 s = (case scanf_d s of None \<Rightarrow> [] | Some (x, r) \<Rightarrow>
      x # (case scanf_d r of None \<Rightarrow> [] | Some (y, r2) \<Rightarrow>
      y # (case scanf_d r2 of None \<Rightarrow> [] | Some (z, r3) \<Rightarrow> [z])))" for s
    by (simp add: numeral_3_eq_3 split: option.splits)
  show ?thesis
    by (simp add: 3 gyro_cal_text_def scanf_d_printf_d not_digit_misc scanf_d_newline)
qed

lemma show_nat_length: "0 < k \<Longrightarrow> n < 10 ^ k \<Longrightarrow> length (show_nat n) \<le> k"
proof (induction n arbitrary: k rule: show_nat.induct)
  case (1 n)
  show ?case
  proof (cases "n < 10")
    case True
    with "1.prems" show ?thesis by (subst show_nat.simps) simp
  next
    case False
    from "1.prems" obtain j where k: "k = Suc j" by (cases k) auto
    with False "1.prems" have j: "0 < j" by (cases j) auto
    from "1.prems" k have "n div 10 < 10 ^ j"
      by (simp add: less_mult_imp_div_less mult.commute)
    from "1.IH" [OF False j this] have "length (show_nat (n div 10)) \<le> j" .
    with False k show ?thesis by (subst show_nat.simps) simp
  qed
qed

lemma digits_val_append:
  "digits_val (xs @ ys) = foldl (\<lambda>a c. 10 * a + ((of_char c :: nat) - 48)) (digits_val xs) ys"
  by (simp add: digits_val_def)

lemma digits_val_zeros: "digits_val (replicate j (CHR ''0'')) = 0"
  by (induction j) (simp_all add: digits_val_def)

lemma pad6_props:
  assumes "m < 1000000"
  shows "length (pad6 m) = 6" and "digits_val (pad6 m) = m"
    and "\<And>c. c \<in> set (pad6 m) \<Longrightarrow> is_digit c"
proof -
  have "m < 10 ^ 6" using assms by simp
  from show_nat_length [OF _ this] have l: "length (show_nat m) \<le> 6" by simp
  then show "length (pad6 m) = 6" by (simp add: pad6_def)
  show "digits_val (pad6 m) = m"
    using digits_val_show_nat [of m]
    by (simp add: pad6_def digits_val_append digits_val_zeros) (simp add: digits_val_def)
  show "\<And>c. c \<in> set (pad6 m) \<Longrightarrow> is_digit c"
  proof -
    fix c assume "c \<in> set (pad6 m)"
    then have "c = CHR ''0'' \<or> c \<in> set (show_nat m)" by (auto simp add: pad6_def)
    moreover have "is_digit CHR ''0''" by (simp add: is_digit_def)
    ultimately show "is_digit c" using show_nat_digits by blast
  qed
qed

lemma scanf_f_digits:
  assumes m: "m < 1000000" and x: "\<not> is_digit x"
  shows "scanf_f (show_nat q @ ''.'' @ pad6 m @ x # r) =
           Some (to_float False (real q + real m / 1000000), x # r)"
proof -
  have t1: "takeWhile is_digit (show_nat q @ CHR ''.'' # pad6 m @ x # r) = show_nat q"
    and d1: "dropWhile is_digit (show_nat q @ CHR ''.'' # pad6 m @ x # r) =
               CHR ''.'' # pad6 m @ x # r"
    using show_nat_take [OF not_digit_misc(3)] by blast+
  have t2: "takeWhile is_digit (pad6 m @ x # r) = pad6 m"
    and d2: "dropWhile is_digit (pad6 m @ x # r) = x # r"
    using take_digits [OF pad6_props(3) [OF m] x] by blast+
  have st: "dropWhile is_space (show_nat q @ CHR ''.'' # pad6 m @ x # r) =
              show_nat q @ CHR ''.'' # pad6 m @ x # r"
    and sg: "scan_sign (show_nat q @ CHR ''.'' # pad6 m @ x # r) =
              (False, show_nat q @ CHR ''.'' # pad6 m @ x # r)"
    by (rule show_nat_start)+
  show ?thesis
    by (simp add: scanf_f_def st sg t1 d1 t2 d2 show_nat_nonempty digits_val_show_nat
        pad6_props [OF m])
qed

lemma scanf_f_digits_neg:
  assumes m: "m < 1000000" and x: "\<not> is_digit x"
  shows "scanf_f (''-'' @ show_nat q @ ''.'' @ pad6 m @ x # r) =
           Some (to_float True (real q + real m / 1000000), x # r)"
proof -
  have t1: "takeWhile is_digit (show_nat q @ CHR ''.'' # pad6 m @ x # r) = show_nat q"
    and d1: "dropWhile is_digit (show_nat q @ CHR ''.'' # pad6 m @ x # r) =
               CHR ''.'' # pad6 m @ x # r"
    using show_nat_take [OF not_digit_misc(3)] by blast+
  have t2: "takeWhile is_digit (pad6 m @ x # r) = pad6 m"
    and d2: "dropWhile is_digit (pad6 m @ x # r) = x # r"
    using take_digits [OF pad6_props(3) [OF m] x] by blast+
  show ?thesis
    by (simp add: scanf_f_def scan_sign_def not_digit_misc t1 d1 t2 d2 show_nat_nonempty
        digits_val_show_nat pad6_props [OF m])
qed

lemma split_micro: "real (n div 1000000) + real (n mod 1000000) / 1000000 = real n / 1000000"
proof -
  have "real n = real (n div 1000000 * 1000000 + n mod 1000000)" by simp
  also have "\<dots> = real (n div 1000000) * 1000000 + real (n mod 1000000)"
    by (simp only: of_nat_add of_nat_mult of_nat_numeral)
  finally show ?thesis by (simp add: field_simps)
qed

text \<open>Scanning the text of a finite value gives the float nearest to the six-decimal number
  that was printed.\<close>

lemma scanf_f_printf_f:
  assumes x: "\<not> is_digit c"
  shows "scanf_f (printf_f (Finite neg m) @ c # r) =
           Some (to_float neg (real (nat (round_half_even (m * 1000000))) / 1000000), c # r)"
proof -
  define n where "n = nat (round_half_even (m * 1000000))"
  have md: "n mod 1000000 < 1000000" by simp
  have p: "\<And>neg. printf_f (Finite neg m) =
      (if neg then ''-'' else []) @ show_nat (n div 1000000) @ ''.'' @ pad6 (n mod 1000000)"
    by (simp add: printf_f_def Let_def n_def)
  show ?thesis
  proof (cases neg)
    case True
    with scanf_f_digits_neg [OF md x, of "n div 1000000" r] show ?thesis
      by (simp add: p split_micro n_def)
  next
    case False
    with scanf_f_digits [OF md x, of "n div 1000000" r] show ?thesis
      by (simp add: p split_micro n_def)
  qed
qed

lemma six_decimals_close:
  assumes "0 \<le> m"
  shows "\<bar>real (nat (round_half_even (m * 1000000))) / 1000000 - m\<bar> \<le> 1 / 2000000"
proof -
  define n where "n = round_half_even (m * 1000000)"
  have "0 \<le> n" unfolding n_def using assms by (intro round_half_even_nonneg) simp
  then have rn: "real (nat n) = real_of_int n" by simp
  have "\<bar>real_of_int n - m * 1000000\<bar> \<le> 1 / 2"
    unfolding n_def by (rule round_half_even_close)
  then have "\<bar>real_of_int n / 1000000 - m\<bar> \<le> 1 / 2000000" by (simp add: abs_if split: if_splits)
  then show ?thesis by (simp only: n_def [symmetric] rn)
qed

text \<open>A float that is written with \<open>%f\<close> and read back with \<open>%f\<close> is a float again, off by
  at most one unit of the sixth decimal.\<close>

lemma reread_float:
  assumes f: "is_float c" and x: "\<not> is_digit x"
  shows "\<exists>c' a b. scanf_f (printf_f c @ x # r) = Some (c', x # r) \<and>
           cf_real c = Some a \<and> cf_real c' = Some b \<and> \<bar>b - a\<bar> \<le> 1 / 1000000"
proof -
  from f obtain neg m where c: "c = Finite neg m" and m: "0 \<le> m"
    and t: "to_float neg m = Finite neg m"
    by (cases c) (simp_all add: is_float_def)
  define v where "v = real (nat (round_half_even (m * 1000000))) / 1000000"
  have "\<bar>v - m\<bar> \<le> 1 / 2000000" unfolding v_def by (rule six_decimals_close [OF m])
  from to_float_reread [OF t this] obtain z
    where z: "to_float neg v = Finite neg z" "\<bar>z - m\<bar> \<le> 1 / 1000000" by blast
  have "scanf_f (printf_f c @ x # r) = Some (Finite neg z, x # r)"
    by (simp only: c scanf_f_printf_f [OF x] v_def [symmetric] z(1))
  moreover have "cf_real c = Some (if neg then - m else m)" by (simp add: c cf_real_def)
  moreover have "cf_real (Finite neg z) = Some (if neg then - z else z)" by (simp add: cf_real_def)
  moreover from z(2) have "\<bar>(if neg then - z else z) - (if neg then - m else m)\<bar> \<le> 1 / 1000000"
    by (cases neg) (simp_all add: abs_minus_commute)
  ultimately show ?thesis by blast
qed

lemma scanf_f_newline: "scanf_f (CHR 0x0A # t) = scanf_f t"
  by (simp add: scanf_f_def is_space_def)

lemma write_mag_cal_OK:
  assumes "fst (write_mag_cal_to_disk D E c sc s) = OK"
  shows "files (snd (write_mag_cal_to_disk D E c sc s)) (CONFIG_DIRECTORY D @ MAG_CAL_FILE D) =
           Some (mag_cal_text c sc)"
  using assms
  by (auto simp add: write_mag_cal_to_disk_def open_cal_file_w_def Let_def split_beta
      split: if_splits)

lemma fscanf_floats_newline: "fscanf_floats n (CHR 0x0A # r) = fscanf_floats n r"
  by (cases n) (simp_all add: scanf_f_newline)

lemma fscanf_floats_step:
  assumes "scanf_f t = Some (c, CHR 0x0A # r)" and "0 < n"
  shows "fscanf_floats n t = c # fscanf_floats (n - 1) r"
  using assms by (cases n) (simp_all add: fscanf_floats_newline)

lemma load_mag_round_trip:
  assumes fi: "files s (CONFIG_DIRECTORY D @ MAG_CAL_FILE D) = Some (mag_cal_text offs sc)"
    and fl: "\<forall>k<3. is_float (offs k) \<and> is_float (sc k)"
  shows "\<exists>t'. load_mag_calibration D E s = Some (OK, t') \<and>
           (\<forall>k<3. \<exists>a b. cf_real (offs k) = Some a \<and> \<bar>mag_offsets t' k - a\<bar> \<le> 1 / 1000000 \<and>
                        cf_real (sc k) = Some b \<and> \<bar>mag_scales t' k - b\<bar> \<le> 1 / 1000000)"
proof -
  let ?nl = "CHR 0x0A"
  have nd: "\<not> is_digit ?nl" by (rule not_digit_misc(1))
  define r5 :: string where "r5 = []"
  define r4 where "r4 = printf_f (sc 2) @ ?nl # r5"
  define r3 where "r3 = printf_f (sc 1) @ ?nl # r4"
  define r2 where "r2 = printf_f (sc 0) @ ?nl # r3"
  define r1 where "r1 = printf_f (offs 2) @ ?nl # r2"
  define r0 where "r0 = printf_f (offs 1) @ ?nl # r1"
  from fl have f: "is_float (offs 0)" "is_float (offs 1)" "is_float (offs 2)"
    "is_float (sc 0)" "is_float (sc 1)" "is_float (sc 2)" by simp_all
  from reread_float [OF f(1) nd, of r0] obtain c0 a0 b0
    where 0: "scanf_f (printf_f (offs 0) @ ?nl # r0) = Some (c0, ?nl # r0)"
      "cf_real (offs 0) = Some a0" "cf_real c0 = Some b0" "\<bar>b0 - a0\<bar> \<le> 1 / 1000000" by blast
  from reread_float [OF f(2) nd, of r1] obtain c1 a1 b1
    where 1: "scanf_f (printf_f (offs 1) @ ?nl # r1) = Some (c1, ?nl # r1)"
      "cf_real (offs 1) = Some a1" "cf_real c1 = Some b1" "\<bar>b1 - a1\<bar> \<le> 1 / 1000000" by blast
  from reread_float [OF f(3) nd, of r2] obtain c2 a2 b2
    where 2: "scanf_f (printf_f (offs 2) @ ?nl # r2) = Some (c2, ?nl # r2)"
      "cf_real (offs 2) = Some a2" "cf_real c2 = Some b2" "\<bar>b2 - a2\<bar> \<le> 1 / 1000000" by blast
  from reread_float [OF f(4) nd, of r3] obtain c3 a3 b3
    where 3: "scanf_f (printf_f (sc 0) @ ?nl # r3) = Some (c3, ?nl # r3)"
      "cf_real (sc 0) = Some a3" "cf_real c3 = Some b3" "\<bar>b3 - a3\<bar> \<le> 1 / 1000000" by blast
  from reread_float [OF f(5) nd, of r4] obtain c4 a4 b4
    where 4: "scanf_f (printf_f (sc 1) @ ?nl # r4) = Some (c4, ?nl # r4)"
      "cf_real (sc 1) = Some a4" "cf_real c4 = Some b4" "\<bar>b4 - a4\<bar> \<le> 1 / 1000000" by blast
  from reread_float [OF f(6) nd, of r5] obtain c5 a5 b5
    where 5: "scanf_f (printf_f (sc 2) @ ?nl # r5) = Some (c5, ?nl # r5)"
      "cf_real (sc 2) = Some a5" "cf_real c5 = Some b5" "\<bar>b5 - a5\<bar> \<le> 1 / 1000000" by blast
  have tx: "mag_cal_text offs sc = printf_f (offs 0) @ ?nl # r0"
    by (simp add: mag_cal_text_def r0_def r1_def r2_def r3_def r4_def r5_def)
  have s0: "fscanf_floats 6 (mag_cal_text offs sc) = c0 # fscanf_floats 5 r0"
    using fscanf_floats_step [OF 0(1), of 6] by (simp add: tx)
  have s1: "fscanf_floats 5 r0 = c1 # fscanf_floats 4 r1"
    using fscanf_floats_step [OF 1(1), of 5] by (simp add: r0_def)
  have s2: "fscanf_floats 4 r1 = c2 # fscanf_floats 3 r2"
    using fscanf_floats_step [OF 2(1), of 4] by (simp add: r1_def)
  have s3: "fscanf_floats 3 r2 = c3 # fscanf_floats 2 r3"
    using fscanf_floats_step [OF 3(1), of 3] by (simp add: r2_def)
  have s4: "fscanf_floats 2 r3 = c4 # fscanf_floats 1 r4"
    using fscanf_floats_step [OF 4(1), of 2] by (simp add: r3_def)
  have s5: "fscanf_floats 1 r4 = [c5]"
    using fscanf_floats_step [OF 5(1), of 1] by (simp add: r4_def)
  have vs: "fscanf_floats 6 (mag_cal_text offs sc) = [c0, c1, c2, c3, c4, c5]"
    by (simp only: s0 s1 s2 s3 s4 s5)
  have th: "those (map (\<lambda>k. cf_real (scanned_float E [c0, c1, c2, c3, c4, c5] k))
              [0, 1, 2, 3, 4, 5]) = Some [b0, b1, b2, b3, b4, b5]"
    by (simp add: scanned_float_def 0(3) 1(3) 2(3) 3(3) 4(3) 5(3))
  define t' where "t' = s\<lparr>mag_offsets := (mag_offsets s)(0 := b0, 1 := b1, 2 := b2),
                         mag_scales := (mag_scales s)(0 := b3, 1 := b4, 2 := b5)\<rparr>"
  have nth: "[b0, b1, b2, b3, b4, b5] ! 0 = b0" "[b0, b1, b2, b3, b4, b5] ! 1 = b1"
    "[b0, b1, b2, b3, b4, b5] ! 2 = b2" "[b0, b1, b2, b3, b4, b5] ! 3 = b3"
    "[b0, b1, b2, b3, b4, b5] ! 4 = b4" "[b0, b1, b2, b3, b4, b5] ! 5 = b5"
    by simp_all
  have l: "load_mag_calibration D E s = Some (OK, t')"
    by (simp only: load_mag_calibration_def Let_def fi option.case vs th nth t'_def)
  have "\<forall>k<3. \<exists>a b. cf_real (offs k) = Some a \<and> \<bar>mag_offsets t' k - a\<bar> \<le> 1 / 1000000 \<and>
                        cf_real (sc k) = Some b \<and> \<bar>mag_scales t' k - b\<bar> \<le> 1 / 1000000"
  proof (intro allI impI)
    fix k :: nat
    assume "k < 3"
    then have "k = 0 \<or> k = 1 \<or> k = 2" by arith
    then show "\<exists>a b. cf_real (offs k) = Some a \<and> \<bar>mag_offsets t' k - a\<bar> \<le> 1 / 1000000 \<and>
                        cf_real (sc k) = Some b \<and> \<bar>mag_scales t' k - b\<bar> \<le> 1 / 1000000"
      using 0 1 2 3 4 5 by (auto simp add: t'_def)
  qed
  with l show ?thesis by blast
qed

lemma write_gyro_OK:
  assumes "fst (write_gyro_offets_to_disk D E offsets s) = OK"
  shows "files (snd (write_gyro_offets_to_disk D E offsets s))
           (CONFIG_DIRECTORY D @ GYRO_CAL_FILE D) = Some (gyro_cal_text offsets)"
  using assms
  by (auto simp add: write_gyro_offets_to_disk_def open_cal_file_w_def Let_def split_beta
      split: if_splits)

lemma load_gyro_bus:
  assumes "files s (CONFIG_DIRECTORY D @ GYRO_CAL_FILE D) = Some (gyro_cal_text offsets)"
  shows "bus (snd (load_gyro_offets D E s)) =
           bus s @ [WriteBytes XG_OFFSET_H
             (gyro_bias_bytes (sint (offsets 0)) (sint (offsets 1)) (sint (offsets 2)))]"
  using assms
  by (simp add: load_gyro_offets_def fscanf_gyro_cal_text scanned_int_def i2c_write_bytes_def
      emit_def say_def Let_def split_beta)

text \<open>
  C9. After a successful \<open>write_gyro_offets_to_disk\<close> the gyro file holds the three offsets
  as decimal text; scanning it gives back exactly the three integers, and
  \<open>load_gyro_offets\<close> pushes the bias bytes computed from them. After a successful
  \<open>write_mag_cal_to_disk\<close> of six finite floats, \<open>load_mag_calibration\<close> succeeds, and each of
  the six floats it stores differs from the one written by at most one unit of the sixth
  decimal: half a unit for the rounding of the text that \<open>%f\<close> prints, and as much again
  at most for the rounding of that decimal number to a float when it is read.
\<close>

theorem C9_calibration_round_trip:
  "(fst (write_gyro_offets_to_disk D E offsets s) = OK \<longrightarrow>
      files (snd (write_gyro_offets_to_disk D E offsets s))
        (CONFIG_DIRECTORY D @ GYRO_CAL_FILE D) = Some (gyro_cal_text offsets) \<and>
      fscanf_ints 3 (gyro_cal_text offsets) =
        [sint (offsets 0), sint (offsets 1), sint (offsets 2)] \<and>
      bus (snd (load_gyro_offets D E' (snd (write_gyro_offets_to_disk D E offsets s)))) =
        bus (snd (write_gyro_offets_to_disk D E offsets s)) @
          [WriteBytes XG_OFFSET_H
             (gyro_bias_bytes (sint (offsets 0)) (sint (offsets 1)) (sint (offsets 2)))]) \<and>
   (fst (write_mag_cal_to_disk D E offs sc t) = OK \<and>
    (\<forall>k<3. is_float (offs k) \<and> is_float (sc k)) \<longrightarrow>
      (\<exists>t'. load_mag_calibration D E' (snd (write_mag_cal_to_disk D E offs sc t)) =
              Some (OK, t') \<and>
            (\<forall>k<3. \<exists>a b. cf_real (offs k) = Some a \<and>
                          \<bar>mag_offsets t' k - a\<bar> \<le> 1 / 1000000 \<and>
                          cf_real (sc k) = Some b \<and>
                          \<bar>mag_scales t' k - b\<bar> \<le> 1 / 1000000)))"
proof (intro conjI impI)
  assume w: "fst (write_gyro_offets_to_disk D E offsets s) = OK"
  show f: "files (snd (write_gyro_offets_to_disk D E offsets s))
        (CONFIG_DIRECTORY D @ GYRO_CAL_FILE D) = Some (gyro_cal_text offsets)"
    by (rule write_gyro_OK [OF w])
  show "fscanf_ints 3 (gyro_cal_text offsets) =
        [sint (offsets 0), sint (offsets 1), sint (offsets 2)]"
    by (rule fscanf_gyro_cal_text)
  show "bus (snd (load_gyro_offets D E' (snd (write_gyro_offets_to_disk D E offsets s)))) =
        bus (snd (write_gyro_offets_to_disk D E offsets s)) @
          [WriteBytes XG_OFFSET_H
             (gyro_bias_bytes (sint (offsets 0)) (sint (offsets 1)) (sint (offsets 2)))]"
    by (rule load_gyro_bus [OF f])
next
  assume a: "fst (write_mag_cal_to_disk D E offs sc t) = OK \<and>
    (\<forall>k<3. is_float (offs k) \<and> is_float (sc k))"
  then have w: "fst (write_mag_cal_to_disk D E offs sc t) = OK"
    and fl: "\<forall>k<3. is_float (offs k) \<and> is_float (sc k)" by blast+
  show "\<exists>t'. load_mag_calibration D E' (snd (write_mag_cal_to_disk D E offs sc t)) =
              Some (OK, t') \<and>
            (\<forall>k<3. \<exists>a b. cf_real (offs k) = Some a \<and>
                          \<bar>mag_offsets t' k - a\<bar> \<le> 1 / 1000000 \<and>
                          cf_real (sc k) = Some b \<and>
                          \<bar>mag_scales t' k - b\<bar> \<le> 1 / 1000000)"
    by (rule load_mag_round_trip [OF write_mag_cal_OK [OF w] fl])
qed

lemma is_float_10: "is_float (Finite neg 10)"
proof -
  have "fp_round_mag 24 (- 126) 127 10 = 10"
    by (rule fp_round_mag_exact [where e = 3 and k = "10 * 2 ^ 20"])
      (simp_all add: power_int_minus)
  then show ?thesis by (simp add: is_float_def to_float_Finite)
qed

lemma is_float_2: "is_float (Finite neg 2)"
proof -
  have "fp_round_mag 24 (- 126) 127 2 = 2"
    by (rule fp_round_mag_exact [where e = 1 and k = "2 ^ 23"]) (simp_all add: power_int_minus)
  then show ?thesis by (simp add: is_float_def to_float_Finite)
qed

theorem C9_calibration_round_trip_witness:
  "fst (write_gyro_offets_to_disk example_defs (example_env 0 []) (\<lambda>k. if k = 1 then - 7 else 12)
          example_driver) = OK \<and>
   fscanf_ints 3 (gyro_cal_text (\<lambda>k. if k = 1 then - 7 else 12)) = [12, - 7, 12] \<and>
   fst (write_mag_cal_to_disk example_defs (example_env 0 []) (\<lambda>_. Finite True 10)
          (\<lambda>_. Finite False 2) example_driver) = OK \<and>
   is_float (Finite True 10) \<and> is_float (Finite False 2) \<and>
   (\<exists>t'. load_mag_calibration example_defs (example_env 0 [])
            (snd (write_mag_cal_to_disk example_defs (example_env 0 []) (\<lambda>_. Finite True 10)
                    (\<lambda>_. Finite False 2) example_driver)) = Some (OK, t') \<and>
         \<bar>mag_offsets t' 0 - (- 10)\<bar> \<le> 1 / 1000000 \<and>
         \<bar>mag_scales t' 0 - 2\<bar> \<le> 1 / 1000000)"
proof -
  let ?o = "\<lambda>k :: nat. if k = 1 then - 7 else (12 :: 16 word)"
  let ?w = "snd (write_mag_cal_to_disk example_defs (example_env 0 []) (\<lambda>_. Finite True 10)
                    (\<lambda>_. Finite False 2) example_driver)"
  have w1: "fst (write_gyro_offets_to_disk example_defs (example_env 0 []) ?o example_driver) = OK"
    by (simp add: write_gyro_offets_to_disk_def open_cal_file_w_def example_env_def Let_def)
  have w2: "fst (write_mag_cal_to_disk example_defs (example_env 0 []) (\<lambda>_. Finite True 10)
      (\<lambda>_. Finite False 2) example_driver) = OK"
    by (simp add: write_mag_cal_to_disk_def open_cal_file_w_def example_env_def Let_def)
  have fl: "\<forall>k<3. is_float ((\<lambda>_. Finite True 10) k) \<and> is_float ((\<lambda>_. Finite False 2) k)"
    by (simp add: is_float_10 is_float_2)
  note inst = C9_calibration_round_trip [of example_defs "example_env 0 []" ?o example_driver
      "example_env 0 []" "\<lambda>_. Finite True 10" "\<lambda>_. Finite False 2" example_driver]
  from inst w1 have 1: "fscanf_ints 3 (gyro_cal_text ?o) = [sint (?o 0), sint (?o 1), sint (?o 2)]"
    by blast
  from inst w2 fl obtain t' where l: "load_mag_calibration example_defs (example_env 0 []) ?w =
      Some (OK, t')"
    and c: "\<forall>k<3. \<exists>a b. cf_real (Finite True 10) = Some a \<and>
                          \<bar>mag_offsets t' k - a\<bar> \<le> 1 / 1000000 \<and>
                          cf_real (Finite False 2) = Some b \<and>
                          \<bar>mag_scales t' k - b\<bar> \<le> 1 / 1000000"
    by blast
  from c have "\<bar>mag_offsets t' 0 - (- 10)\<bar> \<le> 1 / 1000000 \<and> \<bar>mag_scales t' 0 - 2\<bar> \<le> 1 / 1000000"
    by (auto simp add: cf_real_def)
  with l have 2: "\<exists>t'. load_mag_calibration example_defs (example_env 0 []) ?w = Some (OK, t') \<and>
         \<bar>mag_offsets t' 0 - (- 10)\<bar> \<le> 1 / 1000000 \<and>
         \<bar>mag_scales t' 0 - 2\<bar> \<le> 1 / 1000000" by blast
  from 1 have 3: "fscanf_ints 3 (gyro_cal_text ?o) = [12, - 7, 12]" by simp
  from w1 3 w2 2 is_float_10 [of True] is_float_2 [of False] show ?thesis by blast
qed

text \<open>The bound is nearly reached: the float \<open>8 + 11/2^20\<close> is written as \<open>8.000010\<close> and read
  back as the float \<open>8 + 10/2^20\<close>, one unit in the last place (\<open>2^-20\<close>, about
  \<open>0.00000095\<close>) away.\<close>

lemma round_half_even_eval:
  assumes "\<bar>y - real_of_int k\<bar> < 1 / 2"
  shows "round_half_even y = k"
proof -
  from assms round_half_even_close [of y]
  have "\<bar>real_of_int (round_half_even y) - real_of_int k\<bar> < 1" by linarith
  then have "\<bar>round_half_even y - k\<bar> < 1"
    by (metis of_int_diff of_int_abs of_int_less_1_iff)
  then show ?thesis by linarith
qed

lemma reread_example:
  "is_float (Finite False (8 + 11 / 2 ^ 20)) \<and>
   printf_f (Finite False (8 + 11 / 2 ^ 20)) = ''8.000010'' \<and>
   scanf_f (''8.000010'' @ [CHR 0x0A]) = Some (Finite False (8 + 10 / 2 ^ 20), [CHR 0x0A])"
proof -
  have e1: "fp_round_mag 24 (- 126) 127 (8 + 11 / 2 ^ 20) = 8 + 11 / 2 ^ 20"
    by (rule fp_round_mag_exact [where e = 3 and k = "8 * 2 ^ 20 + 11"])
      (simp_all add: power_int_minus)
  then have f: "is_float (Finite False (8 + 11 / 2 ^ 20))"
    by (simp add: is_float_def to_float_Finite)
  have r: "round_half_even ((8 + 11 / 2 ^ 20) * 1000000) = 8000010"
    by (rule round_half_even_eval) simp_all
  have sn: "show_nat 8 = ''8''" "show_nat 10 = ''10''"
    by code_simp+
  have rp: "replicate 4 (CHR ''0'') = ''0000''" by code_simp
  have p: "printf_f (Finite False (8 + 11 / 2 ^ 20)) = ''8.000010''"
    by (simp only: printf_f_def cfloat.case Let_def r) (simp add: pad6_def sn rp)
  define v :: real where "v = 8000010 / 1000000"
  have ex: "fp_exponent (- 126) 127 v = 3"
    by (rule fp_exponent_eq) (simp_all add: v_def)
  have r2: "round_half_even (v / 2 powi (3 - int 24 + 1)) = 8 * 2 ^ 20 + 10"
    by (rule round_half_even_eval) (simp_all add: power_int_minus v_def)
  have m: "fp_round_mag 24 (- 126) 127 v = 8 + 10 / 2 ^ 20"
    by (simp only: fp_round_mag_def Let_def ex r2) (simp add: power_int_minus)
  have t: "to_float False v = Finite False (8 + 10 / 2 ^ 20)"
    by (simp add: to_float_Finite m)
  have rv: "real (nat 8000010) / 1000000 = v" by (simp add: v_def)
  have "scanf_f (printf_f (Finite False (8 + 11 / 2 ^ 20)) @ CHR 0x0A # []) =
      Some (to_float False (real (nat (round_half_even ((8 + 11 / 2 ^ 20) * 1000000))) / 1000000),
            CHR 0x0A # [])"
    by (rule scanf_f_printf_f [OF not_digit_misc(1)])
  then have "scanf_f (''8.000010'' @ [CHR 0x0A]) =
      Some (Finite False (8 + 10 / 2 ^ 20), [CHR 0x0A])"
    by (simp only: p r rv t)
  with f p show ?thesis by blast
qed

section \<open>Magnetometer calibration: bounds of the fit\<close>

lemma mag_sample_loop_files:
  "files (snd (snd (mag_sample_loop E k i A s))) = files s \<and>
   dirs (snd (snd (mag_sample_loop E k i A s))) = dirs s"
proof (induction k arbitrary: i A s)
  case 0
  show ?case by simp
next
  case (Suc k)
  show ?case
    by (simp add: Let_def Suc emit_def say_def usleep_def split: option.splits)
qed

lemma mag_sample_loop_rows:
  "length (fst (snd (mag_sample_loop E k i A s))) + i =
     length A + fst (mag_sample_loop E k i A s)"
proof (induction k arbitrary: i A s)
  case 0
  show ?case by simp
next
  case (Suc k)
  have "length (fst (snd (mag_sample_loop E k (i + 1) (A @ [r]) t))) + i =
          length A + fst (mag_sample_loop E k (i + 1) (A @ [r]) t)" for r t
    using Suc [of "i + 1" "A @ [r]" t] by simp
  then show ?case by (simp add: Let_def split: option.splits)
qed

lemma mag_sample_loop_le: "fst (mag_sample_loop E k i A s) \<le> i + k"
proof (induction k arbitrary: i A s)
  case 0
  show ?case by simp
next
  case (Suc k)
  have "fst (mag_sample_loop E k (i + 1) (A @ [r]) t) \<le> i + Suc k" for r t
    using Suc [of "i + 1" "A @ [r]" t] by simp
  then show ?case by (simp add: Let_def split: option.splits)
qed

lemma mag_sample_loop_steady:
  assumes "\<forall>h. \<not> exiting E h"
    and "\<forall>h. \<exists>m. mag_sample E h = Some m \<and> (m 0 \<noteq> 0 \<or> m 1 \<noteq> 0 \<or> m 2 \<noteq> 0)"
  shows "fst (mag_sample_loop E k i A s) = i + k"
proof (induction k arbitrary: i A s)
  case 0
  show ?case by simp
next
  case (Suc k)
  from assms(2) obtain m
    where m: "mag_sample E (bus (emit (Invoke Read_mag_data) (emit GetState s))) = Some m"
      "m 0 \<noteq> 0 \<or> m 1 \<noteq> 0 \<or> m 2 \<noteq> 0" by blast
  from m assms(1) show ?case by (auto simp add: Let_def Suc)
qed

lemma invoke_files:
  assumes "\<forall>c t. files (callee_effect E c t) = files t \<and> dirs (callee_effect E c t) = dirs t"
  shows "files (snd (invoke E c s)) = files s" and "dirs (snd (invoke E c s)) = dirs s"
  using assms by (simp_all add: invoke_def Let_def emit_def)

lemma mag_collect_files:
  assumes "\<forall>c t. files (callee_effect E c t) = files t \<and> dirs (callee_effect E c t) = dirs t"
  shows "files (snd (mag_collect E s)) = files s" and "dirs (snd (mag_collect E s)) = dirs s"
  by (simp_all add: mag_collect_def Let_def split_beta emit_def say_def ext_def
      reset_mpu9250_def i2c_read_byte_def invoke_files [OF assms] mag_sample_loop_files
      split: option.splits)

lemma mag_collect_rows:
  assumes "mag_collect E s = (Inr A, s8)"
  shows "length A = 200"
proof -
  have "\<And>t. \<not> fst (mag_sample_loop E 200 0 [] t) < 200 \<Longrightarrow>
          length (fst (snd (mag_sample_loop E 200 0 [] t))) = 200"
  proof -
    fix t
    assume a: "\<not> fst (mag_sample_loop E 200 0 [] t) < 200"
    from mag_sample_loop_rows [of E 200 0 "[]" t]
    have "length (fst (snd (mag_sample_loop E 200 0 [] t))) = fst (mag_sample_loop E 200 0 [] t)"
      by simp
    moreover have "fst (mag_sample_loop E 200 0 [] t) \<le> 200"
      using mag_sample_loop_le [of E 200 0 "[]" t] by simp
    ultimately show "length (fst (snd (mag_sample_loop E 200 0 [] t))) = 200" using a by simp
  qed
  with assms show ?thesis
    by (auto simp add: mag_collect_def Let_def split_beta split: if_splits option.splits)
qed

text \<open>In a world in which the bus is free, no call fails, the chip identifies itself, nobody
  asks the program to exit and the magnetometer delivers non-zero samples, the routine gets
  to the fit.\<close>

lemma mag_collect_reaches_fit:
  assumes "\<forall>h. \<not> in_use E h" and "\<forall>h. \<not> call_fails E h"
    and "\<forall>h. read_byte_result E h = Some 0x71" and "\<forall>h. \<not> exiting E h"
    and "\<forall>h. \<exists>m. mag_sample E h = Some m \<and> (m 0 \<noteq> 0 \<or> m 1 \<noteq> 0 \<or> m 2 \<noteq> 0)"
  shows "\<exists>A s8. mag_collect E s = (Inr A, s8)"
proof -
  have "\<And>t. fst (mag_sample_loop E 200 0 [] t) = 200"
    using mag_sample_loop_steady [OF assms(4) assms(5), of 200 0] by simp
  with assms(1-3) show ?thesis
    by (simp add: mag_collect_def Let_def split_beta ext_def reset_mpu9250_def
        i2c_read_byte_def invoke_def)
qed

lemma ex3: "(\<exists>k<(3::nat). P k) \<longleftrightarrow> P 0 \<or> P 1 \<or> P 2"
  using all_less_3 [of "\<lambda>k. \<not> P k"] by blast

lemma mag_fit_reject:
  assumes f: "fitEllipsoid E A = Some (center, lengths)"
    and r: "(\<exists>k<3. cf_gt (cf_fabs (center k)) 70) \<or>
            (\<exists>k<3. cf_gt (lengths k) 140 \<or> cf_lt (lengths k) 5)"
  shows "(fst (mag_fit_and_store D E A s) = ERR CenterOutOfBounds \<or>
          fst (mag_fit_and_store D E A s) = ERR LengthOutOfBounds) \<and>
         ret_code (fst (mag_fit_and_store D E A s)) = - 1 \<and>
         files (snd (mag_fit_and_store D E A s)) = files s \<and>
         dirs (snd (mag_fit_and_store D E A s)) = dirs s"
proof (cases "cf_gt (cf_fabs (center 0)) 70 \<or> cf_gt (cf_fabs (center 1)) 70
             \<or> cf_gt (cf_fabs (center 2)) 70")
  case True
  then have "mag_fit_and_store D E A s =
      (ERR CenterOutOfBounds, say ''ERROR: center of fitted ellipsoid out of bounds'' s)"
    using f by (simp only: mag_fit_and_store_def option.case prod.case if_True)
  then show ?thesis by (simp add: say_def)
next
  case False
  with r have l: "cf_gt (lengths 0) 140 \<or> cf_lt (lengths 0) 5 \<or> cf_gt (lengths 1) 140
                  \<or> cf_lt (lengths 1) 5 \<or> cf_gt (lengths 2) 140 \<or> cf_lt (lengths 2) 5"
    unfolding ex3 by blast
  have "mag_fit_and_store D E A s =
      (ERR LengthOutOfBounds, say ''ERROR: length of fitted ellipsoid out of bounds'' s)"
    using f False l by (simp only: mag_fit_and_store_def option.case prod.case if_True if_False)
  then show ?thesis by (simp add: say_def)
qed

lemma mag_cal_text_cong:
  "sc 0 = sc' 0 \<Longrightarrow> sc 1 = sc' 1 \<Longrightarrow> sc 2 = sc' 2 \<Longrightarrow> mag_cal_text c sc = mag_cal_text c sc'"
  by (simp add: mag_cal_text_def)

lemma write_mag_cal_files:
  assumes "fst (write_mag_cal_to_disk D E c sc s) = OK"
  shows "files (snd (write_mag_cal_to_disk D E c sc s)) =
           (files s)(CONFIG_DIRECTORY D @ MAG_CAL_FILE D \<mapsto> mag_cal_text c sc)"
  using assms
  by (auto simp add: write_mag_cal_to_disk_def open_cal_file_w_def Let_def split_beta
      split: if_splits)

lemma mag_fit_accept:
  assumes f: "fitEllipsoid E A = Some (center, lengths)"
    and c: "\<not> (\<exists>k<3. cf_gt (cf_fabs (center k)) 70)"
    and l: "\<not> (\<exists>k<3. cf_gt (lengths k) 140 \<or> cf_lt (lengths k) 5)"
  shows "fst (mag_fit_and_store D E A s) = OK \<Longrightarrow>
           files (snd (mag_fit_and_store D E A s)) =
             (files s)(CONFIG_DIRECTORY D @ MAG_CAL_FILE D \<mapsto>
                mag_cal_text center (\<lambda>k. double_to_float (double_div 70 (lengths k))))"
    and "fopen_w_ok E (dirs s) (CONFIG_DIRECTORY D @ MAG_CAL_FILE D) \<Longrightarrow>
         \<not> fprintf_fails E (CONFIG_DIRECTORY D @ MAG_CAL_FILE D) \<Longrightarrow>
           fst (mag_fit_and_store D E A s) = OK"
proof -
  let ?ns = "(\<lambda>_. Finite False 0)
                (0 := double_to_float (double_div 70 (lengths 0)),
                 1 := double_to_float (double_div 70 (lengths 1)),
                 2 := double_to_float (double_div 70 (lengths 2)))"
  let ?w = "write_mag_cal_to_disk D E center ?ns s"
  from c l have cl: "\<not> (cf_gt (cf_fabs (center 0)) 70 \<or> cf_gt (cf_fabs (center 1)) 70
             \<or> cf_gt (cf_fabs (center 2)) 70)"
    "\<not> (cf_gt (lengths 0) 140 \<or> cf_lt (lengths 0) 5 \<or> cf_gt (lengths 1) 140
                  \<or> cf_lt (lengths 1) 5 \<or> cf_gt (lengths 2) 140 \<or> cf_lt (lengths 2) 5)"
    unfolding ex3 by blast+
  have r: "mag_fit_and_store D E A s =
      (if ret_code (fst ?w) < 0 then (ERR FileError, snd ?w) else (OK, snd ?w))"
    using f cl by (simp only: mag_fit_and_store_def option.case prod.case if_False Let_def
        split_beta fst_conv snd_conv)
  have tx: "mag_cal_text center ?ns =
      mag_cal_text center (\<lambda>k. double_to_float (double_div 70 (lengths k)))"
    by (rule mag_cal_text_cong) simp_all
  {
    assume ok: "fst (mag_fit_and_store D E A s) = OK"
    with r have "ret_code (fst ?w) \<ge> 0" and sn: "snd (mag_fit_and_store D E A s) = snd ?w"
      by (auto split: if_splits)
    then have "fst ?w = OK" by (cases "fst ?w" rule: ret_code.cases) auto
    from write_mag_cal_files [OF this] sn tx
    show "files (snd (mag_fit_and_store D E A s)) =
             (files s)(CONFIG_DIRECTORY D @ MAG_CAL_FILE D \<mapsto>
                mag_cal_text center (\<lambda>k. double_to_float (double_div 70 (lengths k))))"
      by simp
  }
  {
    assume "fopen_w_ok E (dirs s) (CONFIG_DIRECTORY D @ MAG_CAL_FILE D)"
      and "\<not> fprintf_fails E (CONFIG_DIRECTORY D @ MAG_CAL_FILE D)"
    then have "fst ?w = OK"
      by (simp add: write_mag_cal_to_disk_def open_cal_file_w_def Let_def)
    with r show "fst (mag_fit_and_store D E A s) = OK" by simp
  }
qed

lemma within_bounds_length:
  assumes "\<not> cf_gt (Finite False l) 140" and "\<not> cf_lt (Finite False l) 5"
  shows "\<exists>z. double_to_float (double_div 70 (Finite False l)) = Finite False z \<and>
             \<bar>z - 70 / l\<bar> \<le> 1 / 2 ^ 20"
  using assms by (intro scale_70_close) (simp_all add: cf_gt_def cf_lt_def)

text \<open>
  C8. Let \<open>calibrate_mag_routine\<close> get to the fit with its 200 samples, and let the driver
  functions it calls on the way (\<open>initialize_magnetometer\<close> and \<open>power_off_imu\<close>, which only
  talk to the bus) leave the files alone.
  \<^item> A fitted ellipsoid whose centre exceeds 70 in magnitude on some axis, or one of whose
    axis lengths is above 140 or below 5, is rejected with \<open>-1\<close>, and after the routine the
    calibration files and directories are what they were before it: nothing is persisted.
  \<^item> Otherwise, when the routine succeeds, the only file that has changed is the
    magnetometer file, which holds the centre followed by the three scale factors (as \<open>%f\<close>
    text); each scale factor is the quotient \<open>70.0 / length\<close> as the code computes it,
    rounded to \<open>double\<close> and then to \<open>float\<close>, which is within \<open>2^-20\<close> of \<open>70 / length\<close>.
    The routine does succeed when the file can be opened and written.

  The comparisons are C's: a NaN compares false, so that a centre or length that is a NaN is
  not out of bounds for the code. The calibration in memory is another matter: the routine
  sets it to offsets 0 and scales 1 before it samples, whatever the fit turns out to be.
\<close>

theorem C8_mag_fit_bounds:
  assumes callees: "\<forall>c t. files (callee_effect E c t) = files t \<and>
                          dirs (callee_effect E c t) = dirs t"
    and collect: "mag_collect E s = (Inr A, s8)"
    and fit: "fitEllipsoid E A = Some (center, lengths)"
  shows
   "length A = 200 \<and>
    ((\<exists>k<3. cf_gt (cf_fabs (center k)) 70) \<or>
     (\<exists>k<3. cf_gt (lengths k) 140 \<or> cf_lt (lengths k) 5) \<longrightarrow>
       (fst (calibrate_mag_routine D E s) = ERR CenterOutOfBounds \<or>
        fst (calibrate_mag_routine D E s) = ERR LengthOutOfBounds) \<and>
       ret_code (fst (calibrate_mag_routine D E s)) = - 1 \<and>
       files (snd (calibrate_mag_routine D E s)) = files s \<and>
       dirs (snd (calibrate_mag_routine D E s)) = dirs s) \<and>
    (\<not> (\<exists>k<3. cf_gt (cf_fabs (center k)) 70) \<and>
     \<not> (\<exists>k<3. cf_gt (lengths k) 140 \<or> cf_lt (lengths k) 5) \<longrightarrow>
       (fst (calibrate_mag_routine D E s) = OK \<longrightarrow>
          files (snd (calibrate_mag_routine D E s)) =
            (files s)(CONFIG_DIRECTORY D @ MAG_CAL_FILE D \<mapsto>
               mag_cal_text center (\<lambda>k. double_to_float (double_div 70 (lengths k))))) \<and>
       (fopen_w_ok E (dirs s) (CONFIG_DIRECTORY D @ MAG_CAL_FILE D) \<and>
        \<not> fprintf_fails E (CONFIG_DIRECTORY D @ MAG_CAL_FILE D) \<longrightarrow>
          fst (calibrate_mag_routine D E s) = OK) \<and>
       (\<forall>k<3. \<forall>l. lengths k = Finite False l \<longrightarrow>
          (\<exists>z. double_to_float (double_div 70 (lengths k)) = Finite False z \<and>
               \<bar>z - 70 / l\<bar> \<le> 1 / 2 ^ 20)))"
proof (intro conjI impI allI)
  show "length A = 200" by (rule mag_collect_rows [OF collect])
  have run: "calibrate_mag_routine D E s = mag_fit_and_store D E A s8"
    by (simp add: calibrate_mag_routine_def collect)
  from mag_collect_files [OF callees, of s] collect
  have fs: "files s8 = files s" "dirs s8 = dirs s" by simp_all
  {
    assume r: "(\<exists>k<3. cf_gt (cf_fabs (center k)) 70) \<or>
     (\<exists>k<3. cf_gt (lengths k) 140 \<or> cf_lt (lengths k) 5)"
    note rj = mag_fit_reject [OF fit r, where D = D and s = s8, folded run, unfolded fs]
    from rj show "fst (calibrate_mag_routine D E s) = ERR CenterOutOfBounds \<or>
        fst (calibrate_mag_routine D E s) = ERR LengthOutOfBounds" by blast
    from rj show "ret_code (fst (calibrate_mag_routine D E s)) = - 1" by blast
    from rj show "files (snd (calibrate_mag_routine D E s)) = files s" by blast
    from rj show "dirs (snd (calibrate_mag_routine D E s)) = dirs s" by blast
  }
  assume a: "\<not> (\<exists>k<3. cf_gt (cf_fabs (center k)) 70) \<and>
     \<not> (\<exists>k<3. cf_gt (lengths k) 140 \<or> cf_lt (lengths k) 5)"
  note ac = mag_fit_accept [OF fit conjunct1 [OF a] conjunct2 [OF a], where D = D and s = s8,
      folded run, unfolded fs]
  {
    assume "fst (calibrate_mag_routine D E s) = OK"
    then show "files (snd (calibrate_mag_routine D E s)) =
            (files s)(CONFIG_DIRECTORY D @ MAG_CAL_FILE D \<mapsto>
               mag_cal_text center (\<lambda>k. double_to_float (double_div 70 (lengths k))))"
      by (rule ac(1))
  }
  {
    assume "fopen_w_ok E (dirs s) (CONFIG_DIRECTORY D @ MAG_CAL_FILE D) \<and>
        \<not> fprintf_fails E (CONFIG_DIRECTORY D @ MAG_CAL_FILE D)"
    then show "fst (calibrate_mag_routine D E s) = OK" using ac(2) by blast
  }
  fix k :: nat and l
  assume k: "k < 3" and lk: "lengths k = Finite False l"
  from a k have "\<not> cf_gt (lengths k) 140" "\<not> cf_lt (lengths k) 5" by blast+
  then show "\<exists>z. double_to_float (double_div 70 (lengths k)) = Finite False z \<and>
               \<bar>z - 70 / l\<bar> \<le> 1 / 2 ^ 20"
    unfolding lk by (rule within_bounds_length)
qed

lemma scale_70_35: "double_to_float (double_div 70 (Finite False 35)) = Finite False 2"
proof -
  have "fp_round_mag 53 (- 1022) 1023 2 = 2"
    by (rule fp_round_mag_exact [where e = 1 and k = "2 ^ 52"]) (simp_all add: power_int_minus)
  then have d: "to_double False 2 = Finite False 2" by (simp add: to_double_Finite)
  have "fp_round_mag 24 (- 126) 127 2 = 2"
    by (rule fp_round_mag_exact [where e = 1 and k = "2 ^ 23"]) (simp_all add: power_int_minus)
  then have f: "to_float False 2 = Finite False 2" by (simp add: to_float_Finite)
  show ?thesis by (simp add: double_div_def double_to_float_def d f)
qed

lemma example_mag_cal_text:
  "mag_cal_text (\<lambda>_. Finite False 10) (\<lambda>_. Finite False 2) =
     ''10.000000'' @ [CHR 0x0A] @ ''10.000000'' @ [CHR 0x0A] @ ''10.000000'' @ [CHR 0x0A] @
     ''2.000000'' @ [CHR 0x0A] @ ''2.000000'' @ [CHR 0x0A] @ ''2.000000'' @ [CHR 0x0A]"
proof -
  have r: "round_half_even (10 * 1000000) = 10000000" "round_half_even (2 * 1000000) = 2000000"
    by (rule round_half_even_eval, simp)+
  have sn: "show_nat 10 = ''10''" "show_nat 2 = ''2''" "show_nat 0 = ''0''"
    "replicate 5 (CHR ''0'') = ''00000''"
    by code_simp+
  have p: "printf_f (Finite False 10) = ''10.000000''" "printf_f (Finite False 2) = ''2.000000''"
    by (simp only: printf_f_def cfloat.case Let_def r, simp add: pad6_def sn)+
  show ?thesis by (simp add: mag_cal_text_def p)
qed

theorem C8_mag_fit_bounds_witness:
  "fst (calibrate_mag_routine example_defs (example_env 0 []) example_driver) = OK \<and>
   files (snd (calibrate_mag_routine example_defs (example_env 0 []) example_driver)) =
     (files example_driver)(''/root/robot_config/mag.cal'' \<mapsto>
        ''10.000000'' @ [CHR 0x0A] @ ''10.000000'' @ [CHR 0x0A] @ ''10.000000'' @ [CHR 0x0A] @
        ''2.000000'' @ [CHR 0x0A] @ ''2.000000'' @ [CHR 0x0A] @ ''2.000000'' @ [CHR 0x0A]) \<and>
   fst (calibrate_mag_routine example_defs
     ((example_env 0 [])\<lparr>fitEllipsoid :=
         (\<lambda>A. Some ((\<lambda>_. Finite False 10), (\<lambda>_. Finite False 150)))\<rparr>) example_driver) =
     ERR LengthOutOfBounds \<and>
   files (snd (calibrate_mag_routine example_defs
     ((example_env 0 [])\<lparr>fitEllipsoid :=
         (\<lambda>A. Some ((\<lambda>_. Finite False 10), (\<lambda>_. Finite False 150)))\<rparr>) example_driver)) =
     files example_driver"
proof -
  let ?E = "example_env 0 []"
  let ?E2 = "(example_env 0 [])\<lparr>fitEllipsoid :=
         (\<lambda>A. Some ((\<lambda>_. Finite False 10), (\<lambda>_. Finite False 150)))\<rparr>"
  let ?c = "\<lambda>_ :: nat. Finite False 10"
  have path: "CONFIG_DIRECTORY example_defs @ MAG_CAL_FILE example_defs =
      ''/root/robot_config/mag.cal''" by (simp add: example_defs_def)
  have coop: "\<forall>h. \<not> in_use E h" "\<forall>h. \<not> call_fails E h"
    "\<forall>h. read_byte_result E h = Some 0x71" "\<forall>h. \<not> exiting E h"
    "\<forall>h. \<exists>m. mag_sample E h = Some m \<and> (m 0 \<noteq> 0 \<or> m 1 \<noteq> 0 \<or> m 2 \<noteq> 0)"
    "\<forall>c t. files (callee_effect E c t) = files t \<and> dirs (callee_effect E c t) = dirs t"
    if "E = ?E \<or> E = ?E2" for E
    using that by (auto simp add: example_env_def)
  from mag_collect_reaches_fit [OF coop(1-5)] obtain A s8
    where c1: "mag_collect ?E example_driver = (Inr A, s8)" by blast
  from mag_collect_reaches_fit [OF coop(1-5)] obtain A2 t8
    where c2: "mag_collect ?E2 example_driver = (Inr A2, t8)" by blast
  have f1: "fitEllipsoid ?E A = Some (?c, \<lambda>_. Finite False 35)" by (simp add: example_env_def)
  have f2: "fitEllipsoid ?E2 A2 = Some (?c, \<lambda>_. Finite False 150)" by simp
  have io: "fopen_w_ok ?E (dirs example_driver)
              (CONFIG_DIRECTORY example_defs @ MAG_CAL_FILE example_defs) \<and>
            \<not> fprintf_fails ?E (CONFIG_DIRECTORY example_defs @ MAG_CAL_FILE example_defs)"
    by (simp add: example_env_def)
  have in1: "\<not> (\<exists>k<(3::nat). cf_gt (cf_fabs (?c k)) 70) \<and>
     \<not> (\<exists>k<(3::nat). cf_gt ((\<lambda>_. Finite False 35) k) 140 \<or>
                       cf_lt ((\<lambda>_. Finite False 35) k) 5)"
    by (simp add: cf_gt_def cf_lt_def cf_fabs_def)
  have out2: "(\<exists>k<(3::nat). cf_gt (cf_fabs (?c k)) 70) \<or>
     (\<exists>k<(3::nat). cf_gt ((\<lambda>_. Finite False 150) k) 140 \<or>
                   cf_lt ((\<lambda>_. Finite False 150) k) 5)"
    by (rule disjI2) (simp add: cf_gt_def, rule exI [of _ 0], simp)
  note t1 = C8_mag_fit_bounds [OF coop(6) c1 f1, where D = example_defs]
  note t2 = C8_mag_fit_bounds [OF coop(6) c2 f2, where D = example_defs]
  from t1 in1 io have ok: "fst (calibrate_mag_routine example_defs ?E example_driver) = OK"
    by blast
  from t1 in1 ok have "files (snd (calibrate_mag_routine example_defs ?E example_driver)) =
      (files example_driver)(CONFIG_DIRECTORY example_defs @ MAG_CAL_FILE example_defs \<mapsto>
         mag_cal_text ?c (\<lambda>k. double_to_float (double_div 70 ((\<lambda>_. Finite False 35) k))))"
    by blast
  then have fl: "files (snd (calibrate_mag_routine example_defs ?E example_driver)) =
      (files example_driver)(''/root/robot_config/mag.cal'' \<mapsto>
        ''10.000000'' @ [CHR 0x0A] @ ''10.000000'' @ [CHR 0x0A] @ ''10.000000'' @ [CHR 0x0A] @
        ''2.000000'' @ [CHR 0x0A] @ ''2.000000'' @ [CHR 0x0A] @ ''2.000000'' @ [CHR 0x0A])"
    by (simp only: path scale_70_35 example_mag_cal_text)
  from t2 out2 have rj: "(fst (calibrate_mag_routine example_defs ?E2 example_driver) =
        ERR CenterOutOfBounds \<or>
      fst (calibrate_mag_routine example_defs ?E2 example_driver) = ERR LengthOutOfBounds) \<and>
     files (snd (calibrate_mag_routine example_defs ?E2 example_driver)) = files example_driver"
    by blast
  have "fst (calibrate_mag_routine example_defs ?E2 example_driver) \<noteq> ERR CenterOutOfBounds"
    by (simp add: calibrate_mag_routine_def c2 mag_fit_and_store_def cf_gt_def cf_fabs_def)
  with ok fl rj show ?thesis by blast
qed

lemma show_nat_eval:
  "10 \<le> n \<Longrightarrow> show_nat n = show_nat (n div 10) @ [char_of (48 + n mod 10)]"
  "show_nat 0 = ''0''" "show_nat 1 = ''1''" "show_nat (Suc 0) = ''1''"
  "show_nat 2 = ''2''" "show_nat 3 = ''3''"
  "show_nat 4 = ''4''" "show_nat 5 = ''5''" "show_nat 6 = ''6''" "show_nat 7 = ''7''"
  "show_nat 8 = ''8''" "show_nat 9 = ''9''"
  "char_of (48 :: nat) = CHR ''0''" "char_of (49 :: nat) = CHR ''1''"
  "char_of (50 :: nat) = CHR ''2''" "char_of (51 :: nat) = CHR ''3''"
  "char_of (52 :: nat) = CHR ''4''" "char_of (53 :: nat) = CHR ''5''"
  "char_of (54 :: nat) = CHR ''6''" "char_of (55 :: nat) = CHR ''7''"
  "char_of (56 :: nat) = CHR ''8''" "char_of (57 :: nat) = CHR ''9''"
proof -
  show "10 \<le> n \<Longrightarrow> show_nat n = show_nat (n div 10) @ [char_of (48 + n mod 10)]"
    by (subst show_nat.simps) simp
qed code_simp+

text \<open>The rounding at work: for the length \<open>5.1f\<close> (the float \<open>10695475/2^21\<close>) the quotient
  \<open>70.0/length\<close> is \<open>13.7254904...\<close>, the float stored is \<open>14392220/2^20 = 13.7254905...\<close>,
  and the text written is \<open>13.725491\<close>.\<close>

lemma scale_example:
  "double_to_float (double_div 70 (Finite False (10695475 / 2 ^ 21))) =
     Finite False (14392220 / 2 ^ 20) \<and>
   printf_f (Finite False (14392220 / 2 ^ 20)) = ''13.725491''"
proof -
  define q :: real where "q = 70 / (10695475 / 2 ^ 21)"
  define d :: real where "d = 7726764211053627 / 2 ^ 49"
  define z :: real where "z = 14392220 / 2 ^ 20"
  have eq: "fp_exponent (- 1022) 1023 q = 3"
    by (rule fp_exponent_eq) (simp_all add: q_def)
  have rq: "round_half_even (q / 2 powi (3 - int 53 + 1)) = 7726764211053627"
    by (rule round_half_even_eval) (simp add: power_int_minus q_def)
  have mq: "fp_round_mag 53 (- 1022) 1023 q = d"
    by (simp only: fp_round_mag_def Let_def eq rq) (simp add: power_int_minus d_def)
  have "d < 2 ^ 1024" by (simp add: d_def)
  with mq have tq: "to_double False q = Finite False d" by (simp add: to_double_Finite)
  have ed: "fp_exponent (- 126) 127 d = 3"
    by (rule fp_exponent_eq) (simp_all add: d_def)
  have rd: "round_half_even (d / 2 powi (3 - int 24 + 1)) = 14392220"
    by (rule round_half_even_eval) (simp add: power_int_minus d_def)
  have md: "fp_round_mag 24 (- 126) 127 d = z"
    by (simp only: fp_round_mag_def Let_def ed rd) (simp add: power_int_minus z_def)
  have "z < 2 ^ 128" by (simp add: z_def)
  with md have td: "to_float False d = Finite False z" by (simp add: to_float_Finite)
  have nz: "(10695475 / 2 ^ 21 :: real) \<noteq> 0" by simp
  have 1: "double_to_float (double_div 70 (Finite False (10695475 / 2 ^ 21))) = Finite False z"
    by (simp only: double_div_def cfloat.case nz if_False q_def [symmetric] tq
        double_to_float_def td)
  have r: "round_half_even (z * 1000000) = 13725491"
    by (rule round_half_even_eval) (simp add: z_def)
  have sn: "show_nat 13 = ''13''" "show_nat 725491 = ''725491''"
    by (simp_all add: show_nat_eval)
  have "printf_f (Finite False z) = ''13.725491''"
    by (simp only: printf_f_def cfloat.case Let_def r) (simp add: pad6_def sn)
  with 1 show ?thesis by (simp only: z_def)
qed

section \<open>The decoder on the end-to-end packet\<close>

text \<open>The decoder on the packet of the end-to-end scenario: success, with the raw
  accelerometer and gyroscope readings \<open>(100, -100, 200)\<close> and \<open>(10, -10, 5)\<close> in the sample,
  and the quaternion \<open>(2^30, 0, 0, 0)\<close> (the example math library normalises by the
  identity).\<close>

lemma decoder_end_to_end:
  "fst (read_dmp_fifo example_defs example_math (example_env 28 example_good_packet)
          example_driver) = OK \<and>
   map (\<lambda>k. sint (raw_accel (data (snd (read_dmp_fifo example_defs example_math
          (example_env 28 example_good_packet) example_driver))) k)) [0, 1, 2] =
     [100, - 100, 200] \<and>
   map (\<lambda>k. sint (raw_gyro (data (snd (read_dmp_fifo example_defs example_math
          (example_env 28 example_good_packet) example_driver))) k)) [0, 1, 2] =
     [10, - 10, 5] \<and>
   map (dmp_quat (data (snd (read_dmp_fifo example_defs example_math
          (example_env 28 example_good_packet) example_driver)))) [0, 1, 2, 3] =
     [2 ^ 30, 0, 0, 0]"
  by (simp add: decoder_simps example_simps)

end
